theory Spec2Isabelle
  imports Main
begin

section \<open>Clip matrix parsing (view/clipboard.js, \<open>_getProcessClipBoardData\<close>)\<close>

text \<open>
  JavaScript's \<^verbatim>\<open>String.prototype.split\<close> with a one-character separator: the pieces
  between the occurrences of the separator, in order. The empty string gives one empty
  piece. The second branch of the \<^verbatim>\<open>case\<close> is never taken (the recursive result is
  never empty, see \<open>split_str_not_Nil\<close>); it only makes the function total.
\<close>

fun split_str :: "char \<Rightarrow> string \<Rightarrow> string list" where
  "split_str sep [] = [[]]"
| "split_str sep (c # cs) =
     (if c = sep then [] # split_str sep cs
      else (case split_str sep cs of
              w # ws \<Rightarrow> (c # w) # ws
            | [] \<Rightarrow> [[c]]))"

text \<open>\<^verbatim>\<open>Array.prototype.join\<close> with a one-character separator, the inverse of the split.\<close>

fun join_str :: "char \<Rightarrow> string list \<Rightarrow> string" where
  "join_str sep [] = []"
| "join_str sep [w] = w"
| "join_str sep (w # v # ws) = w @ sep # join_str sep (v # ws)"

definition newline :: char where
  "newline = CHR 0x0A"

definition tab :: char where
  "tab = CHR 0x09"

text \<open>
  The loop \<^verbatim>\<open>for (; i < len; i += 1) { result[i] = result[i].split('\t'); }\<close>
  over the lines of the text: each line is replaced by its cells, in order.
\<close>

primrec splitLines :: "string list \<Rightarrow> string list list" where
  "splitLines [] = []"
| "splitLines (l # ls) = split_str tab l # splitLines ls"

text \<open>\<open>text\<close> is the value of the text-capture surface, \<^verbatim>\<open>this.$el.val()\<close>.\<close>

definition getProcessClipBoardData :: "string \<Rightarrow> string list list" where
  "getProcessClipBoardData text = splitLines (split_str newline text)"

section \<open>The clipboard view and what it talks to (view/clipboard.js)\<close>

text \<open>
  The view owns a lock flag, a timer id, the \<open>pasting\<close> flag, the text of its
  textarea and the key-up handlers bound to it. Everything else belongs to the models it
  was constructed with (focus, selection, data, column, dimension, coordinate and render
  models), whose code is not in the sources. Their answers to the view's
  queries are a parameter of every handler (a record \<open>models\<close>, one field per
  query, the answer as it is given when the handler asks), and the view's commands to
  them are appended to a log \<open>calls\<close>, in the order of the calls. Every call is taken
  to return normally.
\<close>

record address =
  row :: int
  column :: int

text \<open>The selection's \<^verbatim>\<open>range\<close> attribute, \<^verbatim>\<open>{row: [r0, r1], column: [c0, c1]}\<close>.\<close>

record range =
  rowRange :: "int \<times> int"
  columnRange :: "int \<times> int"

record scrollPosition =
  scrollTop :: "int option"
  scrollLeft :: "int option"

text \<open>
  The constants of \<^verbatim>\<open>common/constMap\<close> the view reads: the key codes of
  \<^verbatim>\<open>constMap.keyCode\<close> and the \<^verbatim>\<open>ROW\<close> and \<^verbatim>\<open>COLUMN\<close> tags of
  \<^verbatim>\<open>constMap.selectionType\<close>. The table itself is not in the sources, so it is a
  parameter.
\<close>

record constMap =
  UP_ARROW :: nat
  DOWN_ARROW :: nat
  LEFT_ARROW :: nat
  RIGHT_ARROW :: nat
  PAGE_UP :: nat
  PAGE_DOWN :: nat
  HOME :: nat
  END :: nat
  SPACE :: nat
  ENTER :: nat
  DEL :: nat
  TAB :: nat
  CHAR_A :: nat
  CHAR_C :: nat
  CHAR_V :: nat
  ROW :: string
  COLUMN :: string

text \<open>A key event; \<open>defaultPrevented\<close> is set by \<^verbatim>\<open>preventDefault()\<close>.\<close>

record keyEvent =
  keyCode :: nat
  which :: nat
  shiftKey :: bool
  ctrlKey :: bool
  metaKey :: bool
  defaultPrevented :: bool

text \<open>
  The answers of the models: \<open>'k\<close> is the type of row keys, \<open>'c\<close> of column names
  (either may be a blank value). \<open>column_getVisibleColumnModelList\<close> gives the
  \<^verbatim>\<open>columnName\<close> of each visible column model, in order; \<open>data_getRowData\<close>
  tells whether \<^verbatim>\<open>dataModel.getRowData(rowIdx)\<close> is truthy; \<open>data_getValueString\<close> is
  \<^verbatim>\<open>dataModel.get(rowKey).getValueString(columnName)\<close> and \<open>render_formattedValue\<close> is
  \<^verbatim>\<open>renderModel.getCellData(rowKey, columnName).formattedValue\<close>.
\<close>

record ('k, 'c) models =
  focus_which :: "'k \<times> 'c"
  focus_indexOf :: address
  focus_prevRowKey :: 'k
  focus_nextRowKey :: 'k
  focus_firstRowKey :: 'k
  focus_lastRowKey :: 'k
  focus_prevColumnName :: 'c
  focus_nextColumnName :: 'c
  focus_firstColumnName :: 'c
  focus_lastColumnName :: 'c
  focus_nextAddress :: "'k \<times> 'c"
  focus_prevAddress :: "'k \<times> 'c"
  selection_range :: "range option"
  selection_getType :: string
  selection_getValuesToString :: "bool \<Rightarrow> string"
  data_indexOfRowKey :: "'k \<Rightarrow> int"
  data_length :: int
  data_getRowData :: "int \<Rightarrow> bool"
  data_getValueString :: "'k \<Rightarrow> 'c \<Rightarrow> string"
  column_indexOfColumnName :: "'c \<Rightarrow> bool \<Rightarrow> int"
  column_getVisibleColumnModelList :: "'c list"
  coordRow_getOffsetAt :: "int \<Rightarrow> int"
  coordRow_indexOf :: "int \<Rightarrow> int"
  dimension_bodyHeight :: int
  coordConverter_getScrollPosition :: "int \<Rightarrow> 'c \<Rightarrow> scrollPosition option"
  render_formattedValue :: "'k \<Rightarrow> 'c \<Rightarrow> string"
  util_isBlank :: "'k \<Rightarrow> bool"
  util_clamp :: "int \<Rightarrow> int \<Rightarrow> int \<Rightarrow> int"
  window_clipboardData :: bool

text \<open>
  The commands the view gives to the models, with their arguments. The last argument of
  \<^verbatim>\<open>focus\<close>, \<^verbatim>\<open>focusAt\<close> and \<^verbatim>\<open>focusIn\<close> is the flag the source passes,
  \<open>False\<close> where the source leaves it out; \<open>ClipboardDataSetData\<close> is
  \<^verbatim>\<open>window.clipboardData.setData('Text', text)\<close>.
\<close>

datatype ('k, 'c) call =
    FocusFocus 'k 'c bool
  | FocusFocusAt int int bool
  | FocusFocusIn 'k 'c bool
  | SelectionEnd
  | SelectionSelectAll
  | SelectionUpdate int int
  | DataDel 'k 'c
  | DataDelRange "range option"
  | DataPaste "string list list" address
  | RenderSet scrollPosition
  | ClipboardDataSetData string

text \<open>
  The view. \<open>elVal\<close> is the text of the textarea (\<^verbatim>\<open>this.$el.val()\<close>),
  \<open>keyupHandlers\<close> the number of handlers bound by \<^verbatim>\<open>this.$el.on('keyup', ...)\<close>
  (they are all the same closure), \<open>timers\<close> the pending \<^verbatim>\<open>setTimeout\<close> callbacks of
  \<^verbatim>\<open>_unlock\<close> as pairs of timer id and due time in milliseconds, \<open>now\<close> the clock.
\<close>

record ('k, 'c) clipboard =
  isLocked :: bool
  timeoutIdForKeyIn :: nat
  pasting :: bool
  useFormattedValue :: bool
  elVal :: string
  keyupHandlers :: nat
  timers :: "(nat \<times> nat) list"
  nextTimerId :: nat
  now :: nat
  calls :: "('k, 'c) call list"

text \<open>\<^verbatim>\<open>initialize\<close>: unlocked, no timer, nothing armed (\<open>pasting\<close> is undefined, hence false).\<close>

definition initialize :: "bool \<Rightarrow> ('k, 'c) clipboard" where
  "initialize formatted =
     \<lparr>isLocked = False, timeoutIdForKeyIn = 0, pasting = False,
      useFormattedValue = formatted, elVal = [], keyupHandlers = 0, timers = [],
      nextTimerId = 1, now = 0, calls = []\<rparr>"

text \<open>
  Modelled from the spec: \<^verbatim>\<open>hasSelection()\<close> of model/selection, which is not in the
  sources: there is a selection when a range is selected.
\<close>

definition hasSelection :: "('k, 'c) models \<Rightarrow> bool" where
  "hasSelection M = (selection_range M \<noteq> None)"

text \<open>
  Modelled from the spec: \<^verbatim>\<open>getStartIndex()\<close> of model/selection, the top-left corner
  of the selected range.
\<close>

definition getStartIndex :: "range \<Rightarrow> address" where
  "getStartIndex r = \<lparr>row = fst (rowRange r), column = fst (columnRange r)\<rparr>"

definition preventDefault :: "keyEvent \<Rightarrow> keyEvent" where
  "preventDefault ev = ev\<lparr>defaultPrevented := True\<rparr>"

text \<open>\<^verbatim>\<open>keyDownEvent.keyCode || keyDownEvent.which\<close>\<close>

definition keyCodeOf :: "keyEvent \<Rightarrow> nat" where
  "keyCodeOf ev = (if keyCode ev \<noteq> 0 then keyCode ev else which ev)"

definition call :: "('k, 'c) call list \<Rightarrow> ('k, 'c) clipboard \<Rightarrow> ('k, 'c) clipboard" where
  "call cs s = s\<lparr>calls := calls s @ cs\<rparr>"

text \<open>
  \<^verbatim>\<open>_lock\<close>: the pending timer of \<open>timeoutIdForKeyIn\<close> is cleared, the flag is set and
  \<^verbatim>\<open>_unlock\<close> is scheduled 10 ms from now under a fresh id.
\<close>

definition lock :: "('k, 'c) clipboard \<Rightarrow> ('k, 'c) clipboard" where
  "lock s =
     s\<lparr>timers := (nextTimerId s, now s + 10)
                  # filter (\<lambda>t. fst t \<noteq> timeoutIdForKeyIn s) (timers s),
       isLocked := True,
       timeoutIdForKeyIn := nextTimerId s,
       nextTimerId := Suc (nextTimerId s)\<rparr>"

definition unlock :: "('k, 'c) clipboard \<Rightarrow> ('k, 'c) clipboard" where
  "unlock s = s\<lparr>isLocked := False\<rparr>"

definition getPageMovedRowIndex :: "('k, 'c) models \<Rightarrow> int \<Rightarrow> bool \<Rightarrow> int" where
  "getPageMovedRowIndex M rowIdx isDownDir =
     (let curOffset = coordRow_getOffsetAt M rowIdx;
          distance = (if \<not> isDownDir then - dimension_bodyHeight M else dimension_bodyHeight M);
          movedIdx = coordRow_indexOf M (curOffset + distance)
      in util_clamp M movedIdx 0 (data_length M - 1))"

text \<open>\<^verbatim>\<open>_del\<close>: the selected range when there is a selection, else the focused cell.\<close>

definition del :: "('k, 'c) models \<Rightarrow> ('k, 'c) call list" where
  "del M =
     (if hasSelection M then [DataDelRange (selection_range M)]
      else [DataDel (fst (focus_which M)) (snd (focus_which M))])"

text \<open>
  The \<^verbatim>\<open>switch\<close> of \<^verbatim>\<open>_keyIn\<close>: whether the key is identified, and the calls of
  its case. The cases are compared in the order of the source, the first equal one wins.
\<close>

definition keyInSwitch ::
  "constMap \<Rightarrow> ('k, 'c) models \<Rightarrow> nat \<Rightarrow> bool \<times> ('k, 'c) call list" where
  "keyInSwitch K M code =
     (let rowKey = fst (focus_which M);
          columnName = snd (focus_which M);
          rowIdx = data_indexOfRowKey M rowKey;
          columnIdx = column_indexOfColumnName M columnName True
      in if code = UP_ARROW K then
           (True, [FocusFocus (focus_prevRowKey M) columnName True])
         else if code = DOWN_ARROW K then
           (True, [FocusFocus (focus_nextRowKey M) columnName True])
         else if code = LEFT_ARROW K then
           (True, [FocusFocus rowKey (focus_prevColumnName M) True])
         else if code = RIGHT_ARROW K then
           (True, [FocusFocus rowKey (focus_nextColumnName M) True])
         else if code = PAGE_UP K then
           (True, [FocusFocusAt (getPageMovedRowIndex M rowIdx False) columnIdx True])
         else if code = PAGE_DOWN K then
           (True, [FocusFocusAt (getPageMovedRowIndex M rowIdx True) columnIdx True])
         else if code = HOME K then
           (True, [FocusFocus rowKey (focus_firstColumnName M) True])
         else if code = END K then
           (True, [FocusFocus rowKey (focus_lastColumnName M) True])
         else if code = SPACE K \<or> code = ENTER K then
           (True, [FocusFocusIn rowKey columnName False])
         else if code = DEL K then
           (True, del M)
         else if code = TAB K then
           (True, [FocusFocusIn (fst (focus_nextAddress M)) (snd (focus_nextAddress M)) True])
         else (False, []))"

text \<open>\<^verbatim>\<open>_keyIn\<close>: the key-down handler when neither shift nor ctrl is pressed.\<close>

definition keyIn ::
  "constMap \<Rightarrow> ('k, 'c) models \<Rightarrow> keyEvent \<Rightarrow> ('k, 'c) clipboard
     \<Rightarrow> keyEvent \<times> ('k, 'c) clipboard" where
  "keyIn K M ev s =
     (if util_isBlank M (fst (focus_which M)) then (ev, s)
      else (let (isKeyIdentified, cs) = keyInSwitch K M (keyCodeOf ev)
            in (if isKeyIdentified then preventDefault ev else ev,
                call [SelectionEnd] (call cs s))))"

text \<open>
  \<^verbatim>\<open>_getIndexBeforeMove\<close>: the focused index, or with a selection, on each axis, the
  end of the range when it is greater than the focused index and its start otherwise.
\<close>

definition getIndexBeforeMove :: "('k, 'c) models \<Rightarrow> address" where
  "getIndexBeforeMove M =
     (let focusedIndex = focus_indexOf M
      in case selection_range M of
           None \<Rightarrow> focusedIndex
         | Some selectionRange \<Rightarrow>
             \<lparr>row = (if snd (rowRange selectionRange) > row focusedIndex
                     then snd (rowRange selectionRange)
                     else fst (rowRange selectionRange)),
              column = (if snd (columnRange selectionRange) > column focusedIndex
                        then snd (columnRange selectionRange)
                        else fst (columnRange selectionRange))\<rparr>)"

text \<open>
  The \<^verbatim>\<open>switch\<close> of \<^verbatim>\<open>_keyInWithShift\<close> on the index before the move: the moved
  index, \<open>isSelection\<close>, \<open>isKeyIdentified\<close> and the calls of the case.
\<close>

definition keyInWithShiftSwitch ::
  "constMap \<Rightarrow> ('k, 'c) models \<Rightarrow> nat \<Rightarrow> address
     \<Rightarrow> address \<times> bool \<times> bool \<times> ('k, 'c) call list" where
  "keyInWithShiftSwitch K M code index =
     (if code = UP_ARROW K then (index\<lparr>row := row index - 1\<rparr>, True, True, [])
      else if code = DOWN_ARROW K then (index\<lparr>row := row index + 1\<rparr>, True, True, [])
      else if code = LEFT_ARROW K then (index\<lparr>column := column index - 1\<rparr>, True, True, [])
      else if code = RIGHT_ARROW K then (index\<lparr>column := column index + 1\<rparr>, True, True, [])
      else if code = PAGE_UP K then
        (index\<lparr>row := getPageMovedRowIndex M (row index) False\<rparr>, True, True, [])
      else if code = PAGE_DOWN K then
        (index\<lparr>row := getPageMovedRowIndex M (row index) True\<rparr>, True, True, [])
      else if code = HOME K then (index\<lparr>column := 0\<rparr>, True, True, [])
      else if code = END K then
        (index\<lparr>column := int (length (column_getVisibleColumnModelList M)) - 1\<rparr>,
         True, True, [])
      else if code = ENTER K then (index, False, True, [])
      else if code = TAB K then
        (index, False, True,
         [FocusFocusIn (fst (focus_prevAddress M)) (snd (focus_prevAddress M)) True])
      else (index, False, False, []))"

text \<open>\<^verbatim>\<open>columnModelList[index.column]\<close>: undefined out of the array's range.\<close>

definition at_index :: "'a list \<Rightarrow> int \<Rightarrow> 'a option" where
  "at_index xs i = (if 0 \<le> i \<and> i < int (length xs) then Some (xs ! nat i) else None)"

text \<open>
  The scroll position handed to the render model: \<^verbatim>\<open>scrollTop\<close> is deleted for a
  column selection, \<^verbatim>\<open>scrollLeft\<close> for a row selection.
\<close>

definition adjustScroll :: "constMap \<Rightarrow> string \<Rightarrow> scrollPosition \<Rightarrow> scrollPosition" where
  "adjustScroll K selectionType sp =
     (if selectionType = COLUMN K then sp\<lparr>scrollTop := None\<rparr>
      else if selectionType = ROW K then sp\<lparr>scrollLeft := None\<rparr>
      else sp)"

text \<open>\<^verbatim>\<open>_updateSelectionByKeyIn\<close>\<close>

definition updateSelectionByKeyIn :: "int \<Rightarrow> int \<Rightarrow> ('k, 'c) call list" where
  "updateSelectionByKeyIn rowIndex columnIndex = [SelectionUpdate rowIndex columnIndex]"

text \<open>\<^verbatim>\<open>_keyInWithShift\<close>: the key-down handler when shift is pressed, ctrl is not.\<close>

definition keyInWithShift ::
  "constMap \<Rightarrow> ('k, 'c) models \<Rightarrow> keyEvent \<Rightarrow> ('k, 'c) clipboard
     \<Rightarrow> keyEvent \<times> ('k, 'c) clipboard" where
  "keyInWithShift K M ev s =
     (let columnModelList = column_getVisibleColumnModelList M;
          (index, isSelection, isKeyIdentified, cs) =
             keyInWithShiftSwitch K M (keyCodeOf ev) (getIndexBeforeMove M);
          columnModel = at_index columnModelList (column index);
          isValid = (columnModel \<noteq> None \<and> data_getRowData M (row index));
          us = (case columnModel of
                  Some columnName \<Rightarrow>
                    if isSelection \<and> isValid then
                      updateSelectionByKeyIn (row index) (column index)
                      @ (case coordConverter_getScrollPosition M (row index) columnName of
                           Some sp \<Rightarrow> [RenderSet (adjustScroll K (selection_getType M) sp)]
                         | None \<Rightarrow> [])
                    else []
                | None \<Rightarrow> [])
      in (if isKeyIdentified then preventDefault ev else ev, call us (call cs s)))"

text \<open>\<^verbatim>\<open>_getClipboardString\<close>\<close>

definition getClipboardString :: "('k, 'c) models \<Rightarrow> ('k, 'c) clipboard \<Rightarrow> string" where
  "getClipboardString M s =
     (if hasSelection M then selection_getValuesToString M (useFormattedValue s)
      else if useFormattedValue s then
        render_formattedValue M (fst (focus_which M)) (snd (focus_which M))
      else data_getValueString M (fst (focus_which M)) (snd (focus_which M)))"

text \<open>
  \<^verbatim>\<open>_copyToClipboard\<close>: through \<^verbatim>\<open>window.clipboardData\<close> where the browser has it,
  else the text is put into the textarea (and selected there).
\<close>

definition copyToClipboard :: "('k, 'c) models \<Rightarrow> ('k, 'c) clipboard \<Rightarrow> ('k, 'c) clipboard" where
  "copyToClipboard M s =
     (let text = getClipboardString M s
      in if window_clipboardData M then call [ClipboardDataSetData text] s
         else s\<lparr>elVal := text\<rparr>)"

text \<open>\<^verbatim>\<open>_clearClipBoard\<close>\<close>

definition clearClipBoard :: "('k, 'c) clipboard \<Rightarrow> ('k, 'c) clipboard" where
  "clearClipBoard s = s\<lparr>elVal := []\<rparr>"

text \<open>
  \<^verbatim>\<open>_pasteWhenKeyupCharV\<close>: the textarea is cleared; unless a paste is armed already,
  the flag is set and one more key-up handler is bound.
\<close>

definition pasteWhenKeyupCharV :: "('k, 'c) clipboard \<Rightarrow> ('k, 'c) clipboard" where
  "pasteWhenKeyupCharV s =
     (let s1 = clearClipBoard s
      in if pasting s1 then s1
         else s1\<lparr>pasting := True, keyupHandlers := Suc (keyupHandlers s1)\<rparr>)"

text \<open>
  \<^verbatim>\<open>_pasteToGrid\<close>: the start index, the clip matrix of the textarea, then
  \<^verbatim>\<open>this.$el.off('keyup')\<close> (no key-up handler stays bound) and the paste. With a
  selection there is a range, so the \<open>None\<close> case under \<open>hasSelection\<close> is never taken.
\<close>

definition pasteToGrid :: "('k, 'c) models \<Rightarrow> ('k, 'c) clipboard \<Rightarrow> ('k, 'c) clipboard" where
  "pasteToGrid M s =
     (let startIdx = (if hasSelection M then
                        (case selection_range M of
                           Some r \<Rightarrow> getStartIndex r
                         | None \<Rightarrow> focus_indexOf M)
                      else focus_indexOf M);
          data = getProcessClipBoardData (elVal s)
      in call [DataPaste data startIdx] (s\<lparr>keyupHandlers := 0\<rparr>))"


text \<open>\<^verbatim>\<open>_keyInWithCtrl\<close>: the key-down handler when ctrl (or meta) is pressed, shift is not.\<close>

definition keyInWithCtrl ::
  "constMap \<Rightarrow> ('k, 'c) models \<Rightarrow> keyEvent \<Rightarrow> ('k, 'c) clipboard
     \<Rightarrow> keyEvent \<times> ('k, 'c) clipboard" where
  "keyInWithCtrl K M ev s =
     (let code = keyCodeOf ev
      in if code = CHAR_A K then (ev, call [SelectionSelectAll] s)
         else if code = CHAR_C K then (ev, copyToClipboard M s)
         else if code = HOME K then
           (ev, call [FocusFocus (focus_firstRowKey M) (focus_firstColumnName M) True] s)
         else if code = END K then
           (ev, call [FocusFocus (focus_lastRowKey M) (focus_lastColumnName M) True] s)
         else if code = CHAR_V K then (ev, pasteWhenKeyupCharV s)
         else (ev, s))"

text \<open>\<^verbatim>\<open>_keyInWithShiftAndCtrl\<close>: the key-down handler when both are pressed.\<close>

definition keyInWithShiftAndCtrl ::
  "constMap \<Rightarrow> ('k, 'c) models \<Rightarrow> keyEvent \<Rightarrow> ('k, 'c) clipboard
     \<Rightarrow> keyEvent \<times> ('k, 'c) clipboard" where
  "keyInWithShiftAndCtrl K M ev s =
     (let columnModelList = column_getVisibleColumnModelList M;
          code = keyCodeOf ev
      in if code = HOME K then
           (preventDefault ev, call (updateSelectionByKeyIn 0 0) s)
         else if code = END K then
           (preventDefault ev,
            call (updateSelectionByKeyIn (data_length M - 1)
                    (int (length columnModelList) - 1)) s)
         else (ev, s))"

text \<open>The choice of the handler by the modifier keys, in \<^verbatim>\<open>_onKeyDown\<close>.\<close>

definition dispatch ::
  "constMap \<Rightarrow> ('k, 'c) models \<Rightarrow> keyEvent \<Rightarrow> ('k, 'c) clipboard
     \<Rightarrow> keyEvent \<times> ('k, 'c) clipboard" where
  "dispatch K M ev s =
     (if shiftKey ev \<and> (ctrlKey ev \<or> metaKey ev) then keyInWithShiftAndCtrl K M ev s
      else if shiftKey ev then keyInWithShift K M ev s
      else if ctrlKey ev \<or> metaKey ev then keyInWithCtrl K M ev s
      else keyIn K M ev s)"

text \<open>
  \<^verbatim>\<open>_onKeyDown\<close>: while locked the event is only prevented; else it is dispatched and
  the lock is set.
\<close>

definition onKeyDown ::
  "constMap \<Rightarrow> ('k, 'c) models \<Rightarrow> keyEvent \<Rightarrow> ('k, 'c) clipboard
     \<Rightarrow> keyEvent \<times> ('k, 'c) clipboard" where
  "onKeyDown K M ev s =
     (if isLocked s then (preventDefault ev, s)
      else (let (ev', s') = dispatch K M ev s in (ev', lock s')))"

text \<open>
  The closure bound to key-up by \<^verbatim>\<open>_pasteWhenKeyupCharV\<close>:
  \<^verbatim>\<open>function() { self._pasteToGrid(); self.pasting = false; }\<close>
\<close>

definition keyupHandler :: "('k, 'c) models \<Rightarrow> ('k, 'c) clipboard \<Rightarrow> ('k, 'c) clipboard" where
  "keyupHandler M s = (pasteToGrid M s)\<lparr>pasting := False\<rparr>"

text \<open>
  A key-up event on the textarea: every handler bound when the event is dispatched runs
  once (unbinding during the dispatch does not stop the handlers of this dispatch).
\<close>

definition onKeyUp :: "('k, 'c) models \<Rightarrow> ('k, 'c) clipboard \<Rightarrow> ('k, 'c) clipboard" where
  "onKeyUp M s = (keyupHandler M ^^ keyupHandlers s) s"

text \<open>
  The clock advances by \<open>d\<close> milliseconds: the timers due by then run \<^verbatim>\<open>_unlock\<close> and
  are gone.
\<close>

definition elapse :: "nat \<Rightarrow> ('k, 'c) clipboard \<Rightarrow> ('k, 'c) clipboard" where
  "elapse d s =
     (let t = now s + d;
          due = filter (\<lambda>x. snd x \<le> t) (timers s);
          s1 = s\<lparr>now := t, timers := filter (\<lambda>x. \<not> snd x \<le> t) (timers s)\<rparr>
      in if due = [] then s1 else unlock s1)"

text \<open>
  What happens to the view: a key-down or a key-up (with the models' answers at that
  moment), time passing, and the browser putting text into the textarea (the default
  action of a paste).
\<close>

datatype ('k, 'c) event =
    KeyDown keyEvent "('k, 'c) models"
  | KeyUp "('k, 'c) models"
  | Elapse nat
  | Insert string

fun step :: "constMap \<Rightarrow> ('k, 'c) event \<Rightarrow> ('k, 'c) clipboard \<Rightarrow> ('k, 'c) clipboard" where
  "step K (KeyDown ev M) s = snd (onKeyDown K M ev s)"
| "step K (KeyUp M) s = onKeyUp M s"
| "step K (Elapse d) s = elapse d s"
| "step K (Insert text) s = s\<lparr>elVal := elVal s @ text\<rparr>"

fun run :: "constMap \<Rightarrow> ('k, 'c) event list \<Rightarrow> ('k, 'c) clipboard \<Rightarrow> ('k, 'c) clipboard" where
  "run K [] s = s"
| "run K (e # es) s = run K es (step K e s)"

text \<open>The number of pastes among the calls made so far.\<close>

fun isPaste :: "('k, 'c) call \<Rightarrow> bool" where
  "isPaste (DataPaste data startIdx) = True"
| "isPaste c = False"

definition pastes :: "('k, 'c) clipboard \<Rightarrow> nat" where
  "pastes s = length (filter isPaste (calls s))"

fun isKeyDown :: "('k, 'c) event \<Rightarrow> bool" where
  "isKeyDown (KeyDown ev M) = True"
| "isKeyDown e = False"

fun isKeyUp :: "('k, 'c) event \<Rightarrow> bool" where
  "isKeyUp (KeyUp M) = True"
| "isKeyUp e = False"

text \<open>
  The states the view can be in: a key-up handler is bound exactly while a paste is armed,
  and the only timer that can be pending is the one of \<open>timeoutIdForKeyIn\<close>, pending
  exactly while the view is locked and due within the 10 ms window.
\<close>

definition armed_inv :: "('k, 'c) clipboard \<Rightarrow> bool" where
  "armed_inv s = (keyupHandlers s = (if pasting s then 1 else 0))"

definition lock_inv :: "('k, 'c) clipboard \<Rightarrow> bool" where
  "lock_inv s =
     (timeoutIdForKeyIn s < nextTimerId s
      \<and> (if isLocked s
          then (\<exists>due. timers s = [(timeoutIdForKeyIn s, due)] \<and> now s < due \<and> due \<le> now s + 10)
          else timers s = []))"


text \<open>What a dispatched key-down leaves alone: the lock, the timers and the clock.\<close>

definition same_lock :: "('k, 'c) clipboard \<Rightarrow> ('k, 'c) clipboard \<Rightarrow> bool" where
  "same_lock s s' =
     (isLocked s' = isLocked s \<and> timers s' = timers s
      \<and> timeoutIdForKeyIn s' = timeoutIdForKeyIn s \<and> nextTimerId s' = nextTimerId s
      \<and> now s' = now s \<and> useFormattedValue s' = useFormattedValue s)"

text \<open>
  A key-down is processed when it is dispatched and the lock is set after it; it is
  suppressed when its default action is prevented and nothing else happens.
\<close>

definition processed ::
  "constMap \<Rightarrow> ('k, 'c) models \<Rightarrow> keyEvent \<Rightarrow> ('k, 'c) clipboard \<Rightarrow> bool" where
  "processed K M ev s =
     (onKeyDown K M ev s = (fst (dispatch K M ev s), lock (snd (dispatch K M ev s))))"

definition suppressed ::
  "constMap \<Rightarrow> ('k, 'c) models \<Rightarrow> keyEvent \<Rightarrow> ('k, 'c) clipboard \<Rightarrow> bool" where
  "suppressed K M ev s = (onKeyDown K M ev s = (preventDefault ev, s))"

text \<open>
  A key-down of Ctrl+V (or Cmd+V): no shift, and the key code is that of V, which the
  table tells apart from the codes compared before it in \<^verbatim>\<open>_keyInWithCtrl\<close>.
\<close>

definition isCtrlV :: "constMap \<Rightarrow> keyEvent \<Rightarrow> bool" where
  "isCtrlV K ev =
     (\<not> shiftKey ev \<and> (ctrlKey ev \<or> metaKey ev) \<and> keyCodeOf ev = CHAR_V K
      \<and> CHAR_V K \<noteq> CHAR_A K \<and> CHAR_V K \<noteq> CHAR_C K
      \<and> CHAR_V K \<noteq> HOME K \<and> CHAR_V K \<noteq> END K)"

text \<open>
  In the words of the specification: \<open>x\<close> is the corner of the range \<open>r\<close> (on one axis)
  farthest from the focused index \<open>f\<close>.
\<close>

definition farthestCorner :: "int \<Rightarrow> int \<times> int \<Rightarrow> int \<Rightarrow> bool" where
  "farthestCorner f r x =
     ((x = fst r \<or> x = snd r) \<and> \<bar>fst r - f\<bar> \<le> \<bar>x - f\<bar> \<and> \<bar>snd r - f\<bar> \<le> \<bar>x - f\<bar>)"

text \<open>What the source computes on one axis.\<close>

definition endUnlessPassed :: "int \<Rightarrow> int \<times> int \<Rightarrow> int" where
  "endUnlessPassed f r = (if snd r > f then snd r else fst r)"

section \<open>The row data store (model/data/rowList)\<close>

text \<open>
  The view hands the clip matrix to \<^verbatim>\<open>dataModel.paste\<close> and the selected range or the
  focused cell to \<^verbatim>\<open>dataModel.delRange\<close> and \<^verbatim>\<open>dataModel.del\<close>. The tests of
  \<^verbatim>\<open>rowList.paste\<close> are in the sources, the row list itself is not. This section
  models the store from the specification (its data model, invariants and sections 4.1 and
  4.2). Indices are zero-based positions, so they are natural numbers.
\<close>

text \<open>
  Modelled from the spec: the column schema entry of model/data/columnModel (name, title,
  edit capability, visibility, default value). \<open>editOption\<close> holds the edit type and is
  \<open>None\<close> when the column has no edit capability.
\<close>

record columnModel =
  columnName :: string
  title :: string
  editOption :: "string option"
  isHidden :: bool
  defaultValue :: "string option"

text \<open>
  Modelled from the spec: a row of model/data/rowList, a mapping from column name to cell
  value with a stable row key, the \<open>disabled\<close> flag and the \<open>rowSpan\<close> map (column
  name to span count; a span of \<open>k\<close> owned by row \<open>m\<close> covers the rows \<open>m\<close> to
  \<open>m + k - 1\<close>).
\<close>

record rowData =
  rowKey :: nat
  cells :: "string \<rightharpoonup> string"
  disabled :: bool
  rowSpan :: "string \<rightharpoonup> nat"

text \<open>Modelled from the spec: the store of model/data/rowList, a schema and the rows in order.\<close>

record rowList =
  columnModelList :: "columnModel list"
  rowItems :: "rowData list"

text \<open>
  Modelled from the spec: the positional sequence of columns of model/data/columnModel;
  hidden columns are excluded from it entirely.
\<close>

definition visibleColumns :: "columnModel list \<Rightarrow> columnModel list" where
  "visibleColumns cols = filter (\<lambda>c. \<not> isHidden c) cols"

text \<open>
  Modelled from the spec: whether row \<open>m\<close> owns a span of column \<open>n\<close> that reaches
  row \<open>i\<close> (row-span data of model/data/rowList).
\<close>

definition spans :: "rowData list \<Rightarrow> string \<Rightarrow> nat \<Rightarrow> nat \<Rightarrow> bool" where
  "spans rows n i m = (case rowSpan (rows ! m) n of Some k \<Rightarrow> i < m + k | None \<Rightarrow> False)"

text \<open>
  Modelled from the spec: the cell of row \<open>i\<close> in column \<open>n\<close> is a follower, a non-main
  row of a row-span group: it belongs to a span owned by an earlier row for that column.
\<close>

definition isFollower :: "rowData list \<Rightarrow> nat \<Rightarrow> string \<Rightarrow> bool" where
  "isFollower rows i n = (find (spans rows n i) [0..<i] \<noteq> None)"

text \<open>
  Modelled from the spec: the main (top) row of the span the cell belongs to, the row
  itself when the cell is no follower.
\<close>

definition mainRow :: "rowData list \<Rightarrow> nat \<Rightarrow> string \<Rightarrow> nat" where
  "mainRow rows i n = (case find (spans rows n i) [0..<i] of Some m \<Rightarrow> m | None \<Rightarrow> i)"

text \<open>
  Modelled from the spec: \<^verbatim>\<open>getValue(rowIndex, columnName)\<close> of model/data/rowList. A
  follower cell holds no value of its own, it mirrors the value of its main row.
\<close>

definition getValue :: "rowList \<Rightarrow> nat \<Rightarrow> string \<Rightarrow> string option" where
  "getValue st i n =
     (if i < length (rowItems st) then cells (rowItems st ! mainRow (rowItems st) i n) n
      else None)"

text \<open>
  Modelled from the spec: a new row of model/data/rowList, with the default value of the
  schema, or the empty string, in every column; it is not disabled and owns no span.
\<close>

definition newRow :: "columnModel list \<Rightarrow> nat \<Rightarrow> rowData" where
  "newRow cols k =
     \<lparr>rowKey = k,
      cells = (\<lambda>n. case find (\<lambda>c. columnName c = n) cols of
                      Some c \<Rightarrow> Some (case defaultValue c of Some d \<Rightarrow> d | None \<Rightarrow> [])
                    | None \<Rightarrow> None),
      disabled = False,
      rowSpan = Map.empty\<rparr>"

text \<open>
  Modelled from the spec: a row key not in use (row keys of model/data/rowList are stable
  and identify a row).
\<close>

definition freshKey :: "rowData list \<Rightarrow> nat" where
  "freshKey rows = fold (\<lambda>r k. max k (Suc (rowKey r))) rows 0"

text \<open>
  Modelled from the spec: new rows are appended until the row of index \<open>i\<close> exists
  (row growth of \<^verbatim>\<open>paste\<close> in model/data/rowList).
\<close>

function appendUntil :: "columnModel list \<Rightarrow> nat \<Rightarrow> rowData list \<Rightarrow> rowData list" where
  "appendUntil cols i rows =
     (if i < length rows then rows
      else appendUntil cols i (rows @ [newRow cols (freshKey rows)]))"
  by pat_completeness auto
termination
  by (relation "measure (\<lambda>(cols, i, rows). Suc i - length rows)") auto

declare appendUntil.simps [simp del]

text \<open>
  Modelled from the spec: the write exclusions of \<^verbatim>\<open>paste\<close>, \<^verbatim>\<open>delRange\<close> and
  \<^verbatim>\<open>del\<close> in model/data/rowList. A cell is written unless its row is disabled, its
  column has no edit capability, or it is a non-main row of a row-span group.
\<close>

definition writable :: "columnModel \<Rightarrow> rowData list \<Rightarrow> nat \<Rightarrow> bool" where
  "writable c rows i =
     (\<not> disabled (rows ! i) \<and> editOption c \<noteq> None \<and> \<not> isFollower rows i (columnName c))"

text \<open>Modelled from the spec: the cell value at the row and the column name is set (model/data/rowList).\<close>

definition setValue :: "rowData list \<Rightarrow> nat \<Rightarrow> string \<Rightarrow> string \<Rightarrow> rowData list" where
  "setValue rows i n v = rows[i := (rows ! i)\<lparr>cells := (cells (rows ! i))(n \<mapsto> v)\<rparr>]"

text \<open>
  Modelled from the spec: one write of model/data/rowList, to an existing row, skipped
  under the write exclusions.
\<close>

definition writeCell :: "columnModel \<Rightarrow> nat \<Rightarrow> string \<Rightarrow> rowData list \<Rightarrow> rowData list" where
  "writeCell c i v rows =
     (if i < length rows \<and> writable c rows i then setValue rows i (columnName c) v else rows)"

text \<open>
  Modelled from the spec: one cell of the matrix in \<^verbatim>\<open>paste\<close> of model/data/rowList
  (section 4.1), with target row \<open>i\<close> and target column \<open>j\<close>: skipped when the column
  index is not below the visible column count; else rows are appended until the row
  exists, the column index is resolved among the visible columns, and the value is
  written unless an exclusion holds.
\<close>

definition pasteCell ::
  "columnModel list \<Rightarrow> nat \<Rightarrow> nat \<Rightarrow> string \<Rightarrow> rowData list \<Rightarrow> rowData list" where
  "pasteCell cols i j v rows =
     (if length (visibleColumns cols) \<le> j then rows
      else writeCell (visibleColumns cols ! j) i v (appendUntil cols i rows))"

text \<open>
  Modelled from the spec: the cells of one row of the matrix, from target column \<open>j\<close>
  on (\<^verbatim>\<open>paste\<close> of model/data/rowList).
\<close>

fun pasteRow ::
  "columnModel list \<Rightarrow> nat \<Rightarrow> nat \<Rightarrow> string list \<Rightarrow> rowData list \<Rightarrow> rowData list" where
  "pasteRow cols i j [] rows = rows"
| "pasteRow cols i j (v # vs) rows = pasteRow cols i (Suc j) vs (pasteCell cols i j v rows)"

text \<open>
  Modelled from the spec: the rows of the matrix, from target row \<open>i\<close> on
  (\<^verbatim>\<open>paste\<close> of model/data/rowList).
\<close>

fun pasteRows ::
  "columnModel list \<Rightarrow> nat \<Rightarrow> nat \<Rightarrow> string list list \<Rightarrow> rowData list \<Rightarrow> rowData list" where
  "pasteRows cols i j [] rows = rows"
| "pasteRows cols i j (vs # m) rows = pasteRows cols (Suc i) j m (pasteRow cols i j vs rows)"

text \<open>
  Modelled from the spec: \<^verbatim>\<open>paste(matrix, startAddress)\<close> of model/data/rowList; the
  start address is the pair of the row index and the visible column index.
\<close>

definition paste :: "string list list \<Rightarrow> nat \<times> nat \<Rightarrow> rowList \<Rightarrow> rowList" where
  "paste matrix startAddress st =
     st\<lparr>rowItems := pasteRows (columnModelList st) (fst startAddress) (snd startAddress)
                       matrix (rowItems st)\<rparr>"

text \<open>
  Modelled from the spec: one cell of \<^verbatim>\<open>delRange\<close> of model/data/rowList (section 4.2):
  a visible (row, column) pair is cleared to the empty string under the exclusions of
  paste; no row is appended.
\<close>

definition clearCell :: "columnModel list \<Rightarrow> nat \<Rightarrow> nat \<Rightarrow> rowData list \<Rightarrow> rowData list" where
  "clearCell cols i j rows =
     (if j < length (visibleColumns cols) then writeCell (visibleColumns cols ! j) i [] rows
      else rows)"

text \<open>
  Modelled from the spec: \<^verbatim>\<open>delRange(range)\<close> of model/data/rowList, the range given as
  the inclusive bounds of the rows and of the visible columns.
\<close>

definition delRange :: "(nat \<times> nat) \<times> (nat \<times> nat) \<Rightarrow> rowList \<Rightarrow> rowList" where
  "delRange r st =
     st\<lparr>rowItems :=
          fold (\<lambda>i. fold (clearCell (columnModelList st) i)
                       [fst (snd r)..<Suc (snd (snd r))])
            [fst (fst r)..<Suc (snd (fst r))] (rowItems st)\<rparr>"

text \<open>
  Modelled from the spec: \<^verbatim>\<open>del(rowKey, columnName)\<close> of model/data/rowList clears the
  cell of the row with that key in the column with that name, under the exclusions of
  paste; a hidden column is never mutated; an unknown key or name changes nothing.
\<close>

definition delCell :: "nat \<Rightarrow> string \<Rightarrow> rowList \<Rightarrow> rowList" where
  "delCell k n st =
     (case (find (\<lambda>i. rowKey (rowItems st ! i) = k) [0..<length (rowItems st)],
            find (\<lambda>c. columnName c = n) (visibleColumns (columnModelList st))) of
        (Some i, Some c) \<Rightarrow> st\<lparr>rowItems := writeCell c i [] (rowItems st)\<rparr>
      | _ \<Rightarrow> st)"

text \<open>
  The cells a paste aims at: the matrix has an entry for row \<open>i\<close> and visible column
  \<open>j\<close>.
\<close>

definition targeted :: "string list list \<Rightarrow> nat \<times> nat \<Rightarrow> nat \<Rightarrow> nat \<Rightarrow> bool" where
  "targeted matrix a i j =
     (fst a \<le> i \<and> i - fst a < length matrix
      \<and> snd a \<le> j \<and> j - snd a < length (matrix ! (i - fst a)))"

text \<open>
  A column name under which no visible column can be edited (the column is hidden, or has
  no edit capability, or is not in the schema).
\<close>

definition noEdit :: "columnModel list \<Rightarrow> string \<Rightarrow> bool" where
  "noEdit cols n = (\<forall>c \<in> set (visibleColumns cols). columnName c = n \<longrightarrow> editOption c = None)"

text \<open>
  The rows \<open>rows'\<close> keep the rows \<open>rows\<close>: none is removed or moved, and each keeps its
  key, its \<open>disabled\<close> flag and its spans.
\<close>

definition keepsRows :: "rowData list \<Rightarrow> rowData list \<Rightarrow> bool" where
  "keepsRows rows rows' =
     (length rows \<le> length rows'
      \<and> (\<forall>i < length rows. rowKey (rows' ! i) = rowKey (rows ! i)
            \<and> disabled (rows' ! i) = disabled (rows ! i)
            \<and> rowSpan (rows' ! i) = rowSpan (rows ! i)))"

text \<open>
  The cells that no operation writes: those of a disabled row, of a column name with no
  edit capability, and the follower cells.
\<close>

definition excluded :: "columnModel list \<Rightarrow> rowData list \<Rightarrow> nat \<Rightarrow> string \<Rightarrow> bool" where
  "excluded cols rows i n = (disabled (rows ! i) \<or> noEdit cols n \<or> isFollower rows i n)"

text \<open>
  What an operation that aims at the cells \<open>T\<close> leaves as it was: the rows are kept; a
  cell of an existing row keeps its stored value when it is excluded or not aimed at; an
  appended row is not disabled, owns no span, and holds the default value of the schema
  wherever it is not aimed at or cannot be edited.
\<close>

definition stays ::
  "columnModel list \<Rightarrow> (nat \<Rightarrow> string \<Rightarrow> bool) \<Rightarrow> rowData list \<Rightarrow> rowData list \<Rightarrow> bool" where
  "stays cols T rows rows' =
     (keepsRows rows rows'
      \<and> (\<forall>i < length rows. \<forall>n. excluded cols rows i n \<or> \<not> T i n \<longrightarrow>
            cells (rows' ! i) n = cells (rows ! i) n)
      \<and> (\<forall>i < length rows'. length rows \<le> i \<longrightarrow>
            \<not> disabled (rows' ! i) \<and> rowSpan (rows' ! i) = Map.empty
            \<and> (\<forall>n. noEdit cols n \<or> \<not> T i n \<longrightarrow>
                  cells (rows' ! i) n = cells (newRow cols 0) n)))"

text \<open>The cells the three operations aim at, by row index and column name.\<close>

definition pasteAims ::
  "columnModel list \<Rightarrow> string list list \<Rightarrow> nat \<times> nat \<Rightarrow> nat \<Rightarrow> string \<Rightarrow> bool" where
  "pasteAims cols matrix a i n =
     (\<exists>j < length (visibleColumns cols).
        targeted matrix a i j \<and> columnName (visibleColumns cols ! j) = n)"

definition delRangeAims ::
  "columnModel list \<Rightarrow> (nat \<times> nat) \<times> (nat \<times> nat) \<Rightarrow> nat \<Rightarrow> string \<Rightarrow> bool" where
  "delRangeAims cols r i n =
     (\<exists>j < length (visibleColumns cols).
        fst (fst r) \<le> i \<and> i \<le> snd (fst r) \<and> fst (snd r) \<le> j \<and> j \<le> snd (snd r)
        \<and> columnName (visibleColumns cols ! j) = n)"

definition delAims :: "rowData list \<Rightarrow> nat \<Rightarrow> string \<Rightarrow> nat \<Rightarrow> string \<Rightarrow> bool" where
  "delAims rows k n0 i n = (rowKey (rows ! i) = k \<and> n = n0)"

text \<open>
  The stores of the tests of \<^verbatim>\<open>rowList.paste()\<close>: text columns as
  \<^verbatim>\<open>createColumnModelList\<close> makes them, and rows given by their values.
\<close>

definition textColumn :: "string \<Rightarrow> columnModel" where
  "textColumn n =
     \<lparr>columnName = n, title = n, editOption = Some ''text'', isHidden = False,
      defaultValue = None\<rparr>"

definition plainRow :: "nat \<Rightarrow> (string \<times> string) list \<Rightarrow> rowData" where
  "plainRow k vs = \<lparr>rowKey = k, cells = map_of vs, disabled = False, rowSpan = Map.empty\<rparr>"

text \<open>
  The stores of the tests: three rows of three text columns; two rows, the first
  disabled; two rows, the first owning a span of two rows in column \<open>c2\<close>; two rows
  with given values, column \<open>c2\<close> hidden.
\<close>

definition gridStore :: rowList where
  "gridStore =
     \<lparr>columnModelList = [textColumn ''c1'', textColumn ''c2'', textColumn ''c3''],
      rowItems = [plainRow 0 [(''c1'', ''0-1''), (''c2'', ''0-2''), (''c3'', ''0-3'')],
                  plainRow 1 [(''c1'', ''1-1''), (''c2'', ''1-2''), (''c3'', ''1-3'')],
                  plainRow 2 [(''c1'', ''2-1''), (''c2'', ''2-2''), (''c3'', ''2-3'')]]\<rparr>"

definition disabledStore :: rowList where
  "disabledStore =
     \<lparr>columnModelList = [textColumn ''c1'', textColumn ''c2''],
      rowItems = [(plainRow 0 [(''c1'', ''0-1''), (''c2'', ''0-2'')])\<lparr>disabled := True\<rparr>,
                  plainRow 1 [(''c1'', ''1-1''), (''c2'', ''1-2'')]]\<rparr>"

definition rowSpanStore :: rowList where
  "rowSpanStore =
     \<lparr>columnModelList = [textColumn ''c1'', textColumn ''c2''],
      rowItems = [(plainRow 0 [(''c1'', ''0-1''), (''c2'', ''0-2'')])\<lparr>rowSpan := [''c2'' \<mapsto> 2]\<rparr>,
                  plainRow 1 [(''c1'', ''1-1''), (''c2'', ''1-2'')]]\<rparr>"

definition hiddenStore :: "(string \<times> string) list \<Rightarrow> (string \<times> string) list \<Rightarrow> rowList" where
  "hiddenStore xs ys =
     \<lparr>columnModelList = [textColumn ''c1'', (textColumn ''c2'')\<lparr>isHidden := True\<rparr>,
                          textColumn ''c3''],
      rowItems = [plainRow 0 xs, plainRow 1 ys]\<rparr>"

text \<open>
  A key code that none of the cases of \<^verbatim>\<open>_keyIn\<close> equals, and an event with no
  modifier key.
\<close>

definition unrecognised :: "constMap \<Rightarrow> nat \<Rightarrow> bool" where
  "unrecognised K code =
     (code \<notin> {UP_ARROW K, DOWN_ARROW K, LEFT_ARROW K, RIGHT_ARROW K, PAGE_UP K, PAGE_DOWN K,
               HOME K, END K, SPACE K, ENTER K, DEL K, TAB K})"

definition noModifier :: "keyEvent \<Rightarrow> bool" where
  "noModifier ev = (\<not> shiftKey ev \<and> \<not> ctrlKey ev \<and> \<not> metaKey ev)"

text \<open>
  \<open>isValid\<close> of \<^verbatim>\<open>_keyInWithShift\<close>: the moved index has a visible column model and row
  data.
\<close>

definition shiftValid :: "('k, 'c) models \<Rightarrow> address \<Rightarrow> bool" where
  "shiftValid M index =
     (at_index (column_getVisibleColumnModelList M) (column index) \<noteq> None
      \<and> data_getRowData M (row index))"

text \<open>
  The paste origin in the words of the specification: the start corner of the selection
  if a selection exists, else the current focus address.
\<close>

definition pasteOrigin :: "('k, 'c) models \<Rightarrow> address" where
  "pasteOrigin M =
     (case selection_range M of
        Some r \<Rightarrow> \<lparr>row = fst (rowRange r), column = fst (columnRange r)\<rparr>
      | None \<Rightarrow> focus_indexOf M)"

text \<open>The pastes made so far and the one that is armed.\<close>

definition potential :: "('k, 'c) clipboard \<Rightarrow> nat" where
  "potential s = pastes s + (if pasting s then 1 else 0)"

section \<open>A grid to run the view on\<close>

text \<open>The key codes of the DOM and the selection types.\<close>

definition domKeys :: constMap where
  "domKeys =
     \<lparr>UP_ARROW = 38, DOWN_ARROW = 40, LEFT_ARROW = 37, RIGHT_ARROW = 39, PAGE_UP = 33,
      PAGE_DOWN = 34, HOME = 36, END = 35, SPACE = 32, ENTER = 13, DEL = 46, TAB = 9,
      CHAR_A = 65, CHAR_C = 67, CHAR_V = 86, ROW = ''ROW'', COLUMN = ''COLUMN''\<rparr>"

text \<open>
  The answers of a grid of twelve rows of height 30 (keys \<open>Some 0\<close> to \<open>Some 11\<close>, the
  blank key is \<open>None\<close>) and three visible columns, with a viewport of height 60; the
  focused row key, the focused index and the selected range are given.
\<close>

definition gridModels :: "int option \<Rightarrow> address \<Rightarrow> range option \<Rightarrow> (int option, string) models" where
  "gridModels key idx sel =
     \<lparr>focus_which = (key, ''c2''), focus_indexOf = idx,
      focus_prevRowKey = map_option (\<lambda>n. n - 1) key,
      focus_nextRowKey = map_option (\<lambda>n. min 11 (n + 1)) key,
      focus_firstRowKey = Some 0, focus_lastRowKey = Some 11,
      focus_prevColumnName = ''c1'', focus_nextColumnName = ''c3'',
      focus_firstColumnName = ''c1'', focus_lastColumnName = ''c3'',
      focus_nextAddress = (key, ''c3''), focus_prevAddress = (key, ''c1''),
      selection_range = sel, selection_getType = ''CELL'',
      selection_getValuesToString = (\<lambda>formatted. ''1-1''),
      data_indexOfRowKey = (\<lambda>k. case k of Some n \<Rightarrow> n | None \<Rightarrow> - 1),
      data_length = 12,
      data_getRowData = (\<lambda>i. 0 \<le> i \<and> i < 12),
      data_getValueString = (\<lambda>k c. ''1-2''),
      column_indexOfColumnName = (\<lambda>c visibleOnly. 1),
      column_getVisibleColumnModelList = [''c1'', ''c2'', ''c3''],
      coordRow_getOffsetAt = (\<lambda>i. i * 30),
      coordRow_indexOf = (\<lambda>y. y div 30),
      dimension_bodyHeight = 60,
      coordConverter_getScrollPosition = (\<lambda>r c. None),
      render_formattedValue = (\<lambda>k c. ''1-2''),
      util_isBlank = (\<lambda>k. k = None),
      util_clamp = (\<lambda>v lo hi. max lo (min v hi)),
      window_clipboardData = False\<rparr>"

definition key :: "nat \<Rightarrow> keyEvent" where
  "key code =
     \<lparr>keyCode = code, which = code, shiftKey = False, ctrlKey = False, metaKey = False,
      defaultPrevented = False\<rparr>"

definition ctrl :: "nat \<Rightarrow> keyEvent" where
  "ctrl code = (key code)\<lparr>ctrlKey := True\<rparr>"

definition shift :: "nat \<Rightarrow> keyEvent" where
  "shift code = (key code)\<lparr>shiftKey := True\<rparr>"

section \<open>Facts about the parser\<close>

lemma split_str_not_Nil: "split_str sep s \<noteq> []"
  by (induction s) (auto split: list.splits)

lemma join_split_str: "join_str sep (split_str sep s) = s"
proof (induction s)
  case Nil
  show ?case by simp
next
  case (Cons c cs)
  obtain w ws where sp: "split_str sep cs = w # ws"
    using split_str_not_Nil [of sep cs] by (cases "split_str sep cs") auto
  show ?case
  proof (cases "c = sep")
    case True
    with Cons sp show ?thesis by simp
  next
    case False
    with Cons sp show ?thesis by (cases ws) auto
  qed
qed

lemma split_str_no_sep: "w \<in> set (split_str sep s) \<Longrightarrow> sep \<notin> set w"
proof (induction s arbitrary: w)
  case Nil
  then show ?case by simp
next
  case (Cons c cs)
  obtain v vs where sp: "split_str sep cs = v # vs"
    using split_str_not_Nil [of sep cs] by (cases "split_str sep cs") auto
  show ?case
  proof (cases "c = sep")
    case True
    with Cons.prems Cons.IH show ?thesis by auto
  next
    case False
    with Cons.prems sp have "w = c # v \<or> w \<in> set vs" by auto
    moreover have "sep \<notin> set v" using Cons.IH [of v] sp by simp
    moreover have "w \<in> set vs \<Longrightarrow> sep \<notin> set w" using Cons.IH [of w] sp by simp
    ultimately show ?thesis using False by auto
  qed
qed

lemma splitLines_map: "splitLines ls = map (split_str tab) ls"
  by (induction ls) simp_all

text \<open>
  C7. The clip matrix of a text is the text split on newline, each line then split on
  tab: every line of the text is one row, every row has at least one cell, no cell holds
  a tab or a newline, and joining the cells by tab and the rows by newline gives the text
  back. The empty text gives the one-row, one-column matrix of the empty string.
\<close>

theorem C7_clip_matrix:
  "getProcessClipBoardData text = map (split_str tab) (split_str newline text)
   \<and> getProcessClipBoardData text \<noteq> []
   \<and> [] \<notin> set (getProcessClipBoardData text)
   \<and> (\<forall>cells \<in> set (getProcessClipBoardData text). \<forall>cell \<in> set cells.
         tab \<notin> set cell \<and> newline \<notin> set cell)
   \<and> join_str newline (map (join_str tab) (getProcessClipBoardData text)) = text
   \<and> getProcessClipBoardData [] = [[[]]]"
proof -
  have m: "getProcessClipBoardData s = map (split_str tab) (split_str newline s)" for s
    by (simp add: getProcessClipBoardData_def splitLines_map)
  have ne: "getProcessClipBoardData text \<noteq> []"
    by (simp add: m split_str_not_Nil)
  have nr: "[] \<notin> set (getProcessClipBoardData text)"
    by (auto simp: m split_str_not_Nil [THEN not_sym])
  have cl: "tab \<notin> set cell \<and> newline \<notin> set cell"
    if "cells \<in> set (getProcessClipBoardData text)" and "cell \<in> set cells" for cells cell
  proof -
    from that(1) obtain l where l: "l \<in> set (split_str newline text)"
      and c: "cells = split_str tab l" by (auto simp: m)
    have "tab \<notin> set cell" using that(2) c split_str_no_sep by blast
    moreover have "newline \<notin> set l" using l split_str_no_sep by blast
    moreover have "set cell \<subseteq> set l"
    proof -
      have "set (join_str sep ws) \<supseteq> set w" if "w \<in> set ws" for sep w and ws :: "string list"
        using that by (induction sep ws rule: join_str.induct) auto
      from this [of cell "split_str tab l" tab] that(2) c show ?thesis
        by (simp add: join_split_str)
    qed
    ultimately show ?thesis by blast
  qed
  have rt: "join_str newline (map (join_str tab) (getProcessClipBoardData text)) = text"
    by (simp add: m join_split_str comp_def)
  have e: "getProcessClipBoardData [] = [[[]]]"
    by (simp add: m)
  from m [of "text"] ne nr cl rt e show ?thesis by blast
qed

theorem C7_clip_matrix_witness:
  "getProcessClipBoardData [CHR ''a'', tab, CHR ''b'', newline, CHR ''c'']
     = [[''a'', ''b''], [''c'']]
   \<and> join_str newline (map (join_str tab) [[''a'', ''b''], [''c'']])
     = [CHR ''a'', tab, CHR ''b'', newline, CHR ''c'']"
  using C7_clip_matrix [of "[CHR ''a'', tab, CHR ''b'', newline, CHR ''c'']"]
  by (simp add: tab_def newline_def)

section \<open>Facts about the handlers\<close>

lemma call_simps [simp]:
  "isLocked (call cs s) = isLocked s"
  "timers (call cs s) = timers s"
  "timeoutIdForKeyIn (call cs s) = timeoutIdForKeyIn s"
  "nextTimerId (call cs s) = nextTimerId s"
  "now (call cs s) = now s"
  "pasting (call cs s) = pasting s"
  "keyupHandlers (call cs s) = keyupHandlers s"
  "elVal (call cs s) = elVal s"
  "useFormattedValue (call cs s) = useFormattedValue s"
  "calls (call cs s) = calls s @ cs"
  by (simp_all add: call_def)

lemma keyInSwitch_no_paste: "filter isPaste (snd (keyInSwitch K M code)) = []"
  by (simp add: keyInSwitch_def del_def Let_def)

lemma keyInWithShiftSwitch_no_paste:
  "filter isPaste (snd (snd (snd (keyInWithShiftSwitch K M code index)))) = []"
  by (simp add: keyInWithShiftSwitch_def)

lemma keyIn_frame:
  "same_lock s (snd (keyIn K M ev s)) \<and> pasting (snd (keyIn K M ev s)) = pasting s
   \<and> keyupHandlers (snd (keyIn K M ev s)) = keyupHandlers s
   \<and> pastes (snd (keyIn K M ev s)) = pastes s"
  using keyInSwitch_no_paste [of K M "keyCodeOf ev"]
  by (cases "keyInSwitch K M (keyCodeOf ev)") (simp add: keyIn_def same_lock_def pastes_def)

lemma keyInWithShift_frame:
  "same_lock s (snd (keyInWithShift K M ev s))
   \<and> pasting (snd (keyInWithShift K M ev s)) = pasting s
   \<and> keyupHandlers (snd (keyInWithShift K M ev s)) = keyupHandlers s
   \<and> pastes (snd (keyInWithShift K M ev s)) = pastes s"
  using keyInWithShiftSwitch_no_paste [of K M "keyCodeOf ev" "getIndexBeforeMove M"]
  by (cases "keyInWithShiftSwitch K M (keyCodeOf ev) (getIndexBeforeMove M)")
     (simp add: keyInWithShift_def same_lock_def pastes_def Let_def updateSelectionByKeyIn_def
        split: option.splits)

lemma keyInWithShiftAndCtrl_frame:
  "same_lock s (snd (keyInWithShiftAndCtrl K M ev s))
   \<and> pasting (snd (keyInWithShiftAndCtrl K M ev s)) = pasting s
   \<and> keyupHandlers (snd (keyInWithShiftAndCtrl K M ev s)) = keyupHandlers s
   \<and> pastes (snd (keyInWithShiftAndCtrl K M ev s)) = pastes s"
  by (simp add: keyInWithShiftAndCtrl_def same_lock_def pastes_def Let_def
      updateSelectionByKeyIn_def)

lemma keyInWithCtrl_frame:
  "same_lock s (snd (keyInWithCtrl K M ev s))
   \<and> pastes (snd (keyInWithCtrl K M ev s)) = pastes s"
  by (simp add: keyInWithCtrl_def same_lock_def pastes_def Let_def copyToClipboard_def
      pasteWhenKeyupCharV_def clearClipBoard_def)

lemma dispatch_frame:
  "same_lock s (snd (dispatch K M ev s)) \<and> pastes (snd (dispatch K M ev s)) = pastes s"
  using keyIn_frame [of s K M ev] keyInWithShift_frame [of s K M ev]
    keyInWithShiftAndCtrl_frame [of s K M ev] keyInWithCtrl_frame [of s K M ev]
  by (simp add: dispatch_def)

subsection \<open>The lock\<close>

lemma lock_after:
  assumes "lock_inv s" "same_lock s s'"
  shows "isLocked (lock s') \<and> lock_inv (lock s')
         \<and> timers (lock s') = [(timeoutIdForKeyIn (lock s'), now s + 10)]
         \<and> now (lock s') = now s"
proof -
  have "filter (\<lambda>t. fst t \<noteq> timeoutIdForKeyIn s) (timers s) = []"
    using assms(1) by (auto simp: lock_inv_def split: if_splits)
  then show ?thesis
    using assms by (simp add: lock_def lock_inv_def same_lock_def)
qed

lemma elapse_locked:
  assumes "lock_inv s" "isLocked s" "timers s = [(i, due)]"
  shows "elapse d s = (if now s + d < due then s\<lparr>now := now s + d\<rparr>
                       else s\<lparr>now := now s + d, timers := [], isLocked := False\<rparr>)"
  using assms by (simp add: elapse_def unlock_def Let_def)

lemma elapse_lock_inv: "lock_inv s \<Longrightarrow> lock_inv (elapse d s)"
  by (auto simp: elapse_def unlock_def Let_def lock_inv_def split: if_splits)

lemma onKeyDown_unlocked: "\<not> isLocked s \<Longrightarrow> processed K M ev s"
  by (simp add: processed_def onKeyDown_def split: prod.splits)

lemma onKeyDown_locked: "isLocked s \<Longrightarrow> suppressed K M ev s"
  by (simp add: suppressed_def onKeyDown_def)

lemma onKeyDown_locked_prevented:
  "isLocked s \<Longrightarrow>
   defaultPrevented (fst (onKeyDown K M ev s)) \<and> snd (onKeyDown K M ev s) = s"
  by (simp add: onKeyDown_def preventDefault_def)

lemma lock_inv_initialize: "lock_inv (initialize f)"
  by (simp add: lock_inv_def initialize_def)

lemma onKeyDown_lock_inv:
  assumes "lock_inv s"
  shows "lock_inv (snd (onKeyDown K M ev s))"
proof (cases "isLocked s")
  case True
  with assms show ?thesis by (simp add: onKeyDown_def)
next
  case False
  have "same_lock s (snd (dispatch K M ev s))" using dispatch_frame [of s K M ev] by simp
  from lock_after [OF assms this] False show ?thesis
    by (cases "dispatch K M ev s") (simp add: onKeyDown_def)
qed

lemma keyupHandler_same_lock: "same_lock s (keyupHandler M s)"
  by (simp add: keyupHandler_def pasteToGrid_def same_lock_def Let_def)

lemma same_lock_trans: "same_lock a b \<Longrightarrow> same_lock b c \<Longrightarrow> same_lock a c"
  by (simp add: same_lock_def)

lemma same_lock_refl: "same_lock a a"
  by (simp add: same_lock_def)

lemma funpow_same_lock: "same_lock s ((keyupHandler M ^^ n) s)"
  by (induction n) (auto intro: same_lock_refl same_lock_trans keyupHandler_same_lock)

lemma same_lock_inv: "same_lock s s' \<Longrightarrow> lock_inv s \<Longrightarrow> lock_inv s'"
  by (simp add: same_lock_def lock_inv_def)

lemma step_lock_inv: "lock_inv s \<Longrightarrow> lock_inv (step K e s)"
proof (cases e)
  case (KeyDown ev M)
  then show "lock_inv s \<Longrightarrow> ?thesis" by (simp add: onKeyDown_lock_inv)
next
  case (KeyUp M)
  then show "lock_inv s \<Longrightarrow> ?thesis"
    using funpow_same_lock [of s "keyupHandlers s" M] by (simp add: onKeyUp_def same_lock_inv)
next
  case (Elapse d)
  then show "lock_inv s \<Longrightarrow> ?thesis" by (simp add: elapse_lock_inv)
next
  case (Insert t)
  then show "lock_inv s \<Longrightarrow> ?thesis" by (simp add: lock_inv_def)
qed

lemma run_lock_inv: "lock_inv s \<Longrightarrow> lock_inv (run K es s)"
  by (induction es arbitrary: s) (simp_all add: step_lock_inv)

text \<open>
  C4. In every state the view can reach (after any events from its initial state the lock
  invariant holds): a key-down that arrives while the lock is set has its default action
  prevented (the event's \<open>defaultPrevented\<close> flag is set) and nothing else happens, no
  handler is chosen and the state stays as it is.
  A key-down that arrives while the lock is not set is dispatched and sets the lock with
  one timer due 10 ms later, so the view is locked after \<open>d\<close> more milliseconds exactly
  when \<open>d < 10\<close>. Hence a second key-down less than 10 ms after the first is suppressed,
  with its default action prevented, and a third one, at least 10 ms after the first, is
  processed.
\<close>

theorem C4_reentrancy_lock:
  fixes s :: "('k, 'c) clipboard"
  assumes inv: "lock_inv s"
  shows "lock_inv (run K es (initialize f :: ('k, 'c) clipboard))
    \<and> (isLocked s \<longrightarrow>
         suppressed K M ev s
         \<and> defaultPrevented (fst (onKeyDown K M ev s))
         \<and> snd (onKeyDown K M ev s) = s)
    \<and> (\<not> isLocked s \<longrightarrow>
         processed K M ev s
         \<and> isLocked (snd (onKeyDown K M ev s))
         \<and> lock_inv (snd (onKeyDown K M ev s))
         \<and> timers (snd (onKeyDown K M ev s))
             = [(timeoutIdForKeyIn (snd (onKeyDown K M ev s)), now s + 10)]
         \<and> (\<forall>d. isLocked (elapse d (snd (onKeyDown K M ev s))) = (d < 10))
         \<and> (\<forall>d1 d2 M2 ev2 M3 ev3. d1 < 10 \<and> 10 \<le> d1 + d2 \<longrightarrow>
               suppressed K M2 ev2 (elapse d1 (snd (onKeyDown K M ev s)))
               \<and> defaultPrevented
                   (fst (onKeyDown K M2 ev2 (elapse d1 (snd (onKeyDown K M ev s)))))
               \<and> processed K M3 ev3
                   (elapse d2 (snd (onKeyDown K M2 ev2 (elapse d1 (snd (onKeyDown K M ev s))))))))"
proof (intro conjI impI)
  show "lock_inv (run K es (initialize f :: ('k, 'c) clipboard))"
    by (simp add: run_lock_inv lock_inv_initialize)
next
  assume l: "isLocked s"
  then show "suppressed K M ev s" by (rule onKeyDown_locked)
  from l show "defaultPrevented (fst (onKeyDown K M ev s))"
    by (rule onKeyDown_locked_prevented [THEN conjunct1])
  from l show "snd (onKeyDown K M ev s) = s"
    by (rule onKeyDown_locked_prevented [THEN conjunct2])
next
  assume u: "\<not> isLocked s"
  let ?d = "snd (dispatch K M ev s)"
  let ?s1 = "snd (onKeyDown K M ev s)"
  show p: "processed K M ev s" using u by (rule onKeyDown_unlocked)
  then have s1: "?s1 = lock ?d" by (simp add: processed_def)
  have fr: "same_lock s ?d" using dispatch_frame [of s K M ev] by simp
  note la = lock_after [OF inv fr, folded s1]
  show "isLocked ?s1" using la by simp
  show "lock_inv ?s1" using la by simp
  show t: "timers ?s1 = [(timeoutIdForKeyIn ?s1, now s + 10)]" using la by simp
  have el: "elapse d ?s1 = (if d < 10 then ?s1\<lparr>now := now ?s1 + d\<rparr>
              else ?s1\<lparr>now := now ?s1 + d, timers := [], isLocked := False\<rparr>)" for d
    using elapse_locked [of ?s1 "timeoutIdForKeyIn ?s1" "now s + 10" d] la by simp
  show w: "\<forall>d. isLocked (elapse d ?s1) = (d < 10)"
    using la by (simp add: el)
  show "\<forall>d1 d2 M2 ev2 M3 ev3. d1 < 10 \<and> 10 \<le> d1 + d2 \<longrightarrow>
          suppressed K M2 ev2 (elapse d1 ?s1)
          \<and> defaultPrevented (fst (onKeyDown K M2 ev2 (elapse d1 ?s1)))
          \<and> processed K M3 ev3 (elapse d2 (snd (onKeyDown K M2 ev2 (elapse d1 ?s1))))"
  proof (intro allI impI)
    fix d1 d2 :: nat and M2 M3 :: "('k, 'c) models" and ev2 ev3
    assume d: "d1 < 10 \<and> 10 \<le> d1 + d2"
    let ?s2 = "elapse d1 ?s1"
    have l2: "isLocked ?s2" using w d by simp
    have sup: "suppressed K M2 ev2 ?s2" using l2 by (rule onKeyDown_locked)
    then have s3: "snd (onKeyDown K M2 ev2 ?s2) = ?s2" by (simp add: suppressed_def)
    have s2: "?s2 = ?s1\<lparr>now := now ?s1 + d1\<rparr>" using d by (simp add: el)
    have "\<not> isLocked (elapse d2 ?s2)"
      using d la by (simp add: s2 elapse_def unlock_def Let_def)
    then have "processed K M3 ev3 (elapse d2 ?s2)" by (rule onKeyDown_unlocked)
    moreover have "defaultPrevented (fst (onKeyDown K M2 ev2 ?s2))"
      using l2 by (rule onKeyDown_locked_prevented [THEN conjunct1])
    ultimately show "suppressed K M2 ev2 ?s2
          \<and> defaultPrevented (fst (onKeyDown K M2 ev2 ?s2))
          \<and> processed K M3 ev3 (elapse d2 (snd (onKeyDown K M2 ev2 ?s2)))"
      using sup s3 by simp
  qed
qed

theorem C4_reentrancy_lock_witness:
  "lock_inv (initialize False :: (int option, string) clipboard)
   \<and> processed domKeys (gridModels (Some 1) \<lparr>row = 1, column = 1\<rparr> None) (key 40)
        (initialize False)
   \<and> calls (snd (onKeyDown domKeys (gridModels (Some 1) \<lparr>row = 1, column = 1\<rparr> None) (key 40)
        (initialize False))) = [FocusFocus (Some 2) ''c2'' True, SelectionEnd]
   \<and> suppressed domKeys (gridModels (Some 2) \<lparr>row = 2, column = 1\<rparr> None) (key 40)
        (elapse 3 (snd (onKeyDown domKeys (gridModels (Some 1) \<lparr>row = 1, column = 1\<rparr> None)
           (key 40) (initialize False))))
   \<and> \<not> defaultPrevented (key 40)
   \<and> defaultPrevented
        (fst (onKeyDown domKeys (gridModels (Some 2) \<lparr>row = 2, column = 1\<rparr> None) (key 40)
           (elapse 3 (snd (onKeyDown domKeys
              (gridModels (Some 1) \<lparr>row = 1, column = 1\<rparr> None) (key 40)
              (initialize False))))))
   \<and> processed domKeys (gridModels (Some 2) \<lparr>row = 2, column = 1\<rparr> None) (key 40)
        (elapse 8 (snd (onKeyDown domKeys (gridModels (Some 2) \<lparr>row = 2, column = 1\<rparr> None)
           (key 40)
           (elapse 3 (snd (onKeyDown domKeys (gridModels (Some 1) \<lparr>row = 1, column = 1\<rparr> None)
              (key 40) (initialize False)))))))"
proof -
  let ?s = "initialize False :: (int option, string) clipboard"
  let ?M = "gridModels (Some 1) \<lparr>row = 1, column = 1\<rparr> None"
  have i: "lock_inv ?s" by (rule lock_inv_initialize)
  have u: "\<not> isLocked ?s" by (simp add: initialize_def)
  note t = C4_reentrancy_lock [OF i, of domKeys "[]" False ?M "key 40"]
  have c: "calls (snd (onKeyDown domKeys ?M (key 40) ?s))
             = [FocusFocus (Some 2) ''c2'' True, SelectionEnd]"
    by (simp add: onKeyDown_def dispatch_def keyIn_def keyInSwitch_def key_def keyCodeOf_def
        gridModels_def domKeys_def initialize_def lock_def call_def Let_def)
  have d: "(3::nat) < 10 \<and> (10::nat) \<le> 3 + 8" by simp
  have n: "\<not> defaultPrevented (key 40)" by (simp add: key_def)
  from t u i c d n show ?thesis by blast
qed

subsection \<open>Keys without a modifier\<close>

lemma keyInSwitch_unrecognised: "unrecognised K code \<Longrightarrow> keyInSwitch K M code = (False, [])"
  by (simp add: unrecognised_def keyInSwitch_def Let_def)

lemma keyInSwitch_recognised: "\<not> unrecognised K code \<Longrightarrow> fst (keyInSwitch K M code)"
  by (auto simp: unrecognised_def keyInSwitch_def Let_def)

lemma keyIn_blank: "util_isBlank M (fst (focus_which M)) \<Longrightarrow> keyIn K M ev s = (ev, s)"
  by (simp add: keyIn_def)

lemma keyIn_focused:
  "\<not> util_isBlank M (fst (focus_which M)) \<Longrightarrow>
   keyIn K M ev s =
     (if fst (keyInSwitch K M (keyCodeOf ev)) then preventDefault ev else ev,
      s\<lparr>calls := calls s @ snd (keyInSwitch K M (keyCodeOf ev)) @ [SelectionEnd]\<rparr>)"
  by (simp add: keyIn_def call_def split: prod.splits)

text \<open>
  C10. A key-down with no modifier key, arriving while the view is not locked, is handled
  by \<^verbatim>\<open>_keyIn\<close> (after which the lock is set). If the focused row key is blank,
  \<^verbatim>\<open>_keyIn\<close> returns at once: no call to any model, the event's default action not
  prevented. Otherwise the calls of the key's case are made, if any, and then always
  \<^verbatim>\<open>selectionModel.end()\<close>, as the last call; the default action is prevented exactly
  for the keys that are recognised. For a key that is not recognised the only call is
  \<^verbatim>\<open>selectionModel.end()\<close>.
\<close>

theorem C10_keyIn:
  "(noModifier ev \<and> \<not> isLocked s \<longrightarrow>
      onKeyDown K M ev s = (fst (keyIn K M ev s), lock (snd (keyIn K M ev s))))
   \<and> (util_isBlank M (fst (focus_which M)) \<longrightarrow> keyIn K M ev s = (ev, s))
   \<and> (\<not> util_isBlank M (fst (focus_which M)) \<longrightarrow>
        snd (keyIn K M ev s)
          = s\<lparr>calls := calls s @ snd (keyInSwitch K M (keyCodeOf ev)) @ [SelectionEnd]\<rparr>
        \<and> last (calls (snd (keyIn K M ev s))) = SelectionEnd
        \<and> fst (keyIn K M ev s)
            = (if unrecognised K (keyCodeOf ev) then ev else preventDefault ev)
        \<and> (unrecognised K (keyCodeOf ev) \<longrightarrow>
              keyIn K M ev s = (ev, s\<lparr>calls := calls s @ [SelectionEnd]\<rparr>)))"
proof (intro conjI impI)
  assume "noModifier ev \<and> \<not> isLocked s"
  then show "onKeyDown K M ev s = (fst (keyIn K M ev s), lock (snd (keyIn K M ev s)))"
    by (simp add: noModifier_def onKeyDown_def dispatch_def split: prod.splits)
next
  assume "util_isBlank M (fst (focus_which M))"
  then show "keyIn K M ev s = (ev, s)" by (rule keyIn_blank)
next
  assume f: "\<not> util_isBlank M (fst (focus_which M))"
  note k = keyIn_focused [OF f, of K ev s]
  show "snd (keyIn K M ev s)
          = s\<lparr>calls := calls s @ snd (keyInSwitch K M (keyCodeOf ev)) @ [SelectionEnd]\<rparr>"
    by (simp add: k)
  show "last (calls (snd (keyIn K M ev s))) = SelectionEnd"
    by (simp add: k)
  show "fst (keyIn K M ev s) = (if unrecognised K (keyCodeOf ev) then ev else preventDefault ev)"
    using keyInSwitch_unrecognised [of K "keyCodeOf ev" M]
      keyInSwitch_recognised [of K "keyCodeOf ev" M]
    by (simp add: k)
  show "keyIn K M ev s = (ev, s\<lparr>calls := calls s @ [SelectionEnd]\<rparr>)"
    if "unrecognised K (keyCodeOf ev)"
    using keyInSwitch_unrecognised [OF that, of M] by (simp add: k)
qed

theorem C10_keyIn_witness:
  "noModifier (key 90) \<and> unrecognised domKeys (keyCodeOf (key 90))
   \<and> \<not> isLocked (initialize False :: (int option, string) clipboard)
   \<and> keyIn domKeys (gridModels None \<lparr>row = - 1, column = - 1\<rparr> None) (key 90) (initialize False)
       = (key 90, initialize False)
   \<and> keyIn domKeys (gridModels (Some 1) \<lparr>row = 1, column = 1\<rparr> None) (key 90) (initialize False)
       = (key 90, (initialize False)\<lparr>calls := [SelectionEnd]\<rparr>)
   \<and> calls (snd (onKeyDown domKeys (gridModels (Some 1) \<lparr>row = 1, column = 1\<rparr> None) (key 90)
        (initialize False))) = [SelectionEnd]
   \<and> keyIn domKeys (gridModels (Some 1) \<lparr>row = 1, column = 1\<rparr> None) (key 46) (initialize False)
       = (preventDefault (key 46),
          (initialize False)\<lparr>calls := [DataDel (Some 1) ''c2'', SelectionEnd]\<rparr>)"
proof -
  let ?s = "initialize False :: (int option, string) clipboard"
  let ?B = "gridModels None \<lparr>row = - 1, column = - 1\<rparr> None"
  let ?M = "gridModels (Some 1) \<lparr>row = 1, column = 1\<rparr> None"
  have n: "noModifier (key 90)" by (simp add: noModifier_def key_def)
  have u: "unrecognised domKeys (keyCodeOf (key 90))"
    by (simp add: unrecognised_def keyCodeOf_def key_def domKeys_def)
  have r: "\<not> unrecognised domKeys (keyCodeOf (key 46))"
    by (simp add: unrecognised_def keyCodeOf_def key_def domKeys_def)
  have l: "\<not> isLocked ?s" by (simp add: initialize_def)
  have b: "util_isBlank ?B (fst (focus_which ?B))" by (simp add: gridModels_def)
  have f: "\<not> util_isBlank ?M (fst (focus_which ?M))" by (simp add: gridModels_def)
  have c0: "calls ?s = []" by (simp add: initialize_def)
  have d: "snd (keyInSwitch domKeys ?M (keyCodeOf (key 46))) = [DataDel (Some 1) ''c2'']"
    by (simp add: keyInSwitch_def keyCodeOf_def key_def domKeys_def gridModels_def del_def
        hasSelection_def Let_def)
  from C10_keyIn [of "key 90" ?s domKeys ?B] b
  have 1: "keyIn domKeys ?B (key 90) ?s = (key 90, ?s)" by blast
  from C10_keyIn [of "key 90" ?s domKeys ?M] f u n l
  have 2: "keyIn domKeys ?M (key 90) ?s = (key 90, ?s\<lparr>calls := calls ?s @ [SelectionEnd]\<rparr>)"
    and 3: "onKeyDown domKeys ?M (key 90) ?s
              = (fst (keyIn domKeys ?M (key 90) ?s), lock (snd (keyIn domKeys ?M (key 90) ?s)))"
    by blast+
  from C10_keyIn [of "key 46" ?s domKeys ?M] f r d
  have 4: "keyIn domKeys ?M (key 46) ?s
             = (preventDefault (key 46), ?s\<lparr>calls := calls ?s @ [DataDel (Some 1) ''c2'', SelectionEnd]\<rparr>)"
    by (metis append_Cons append_Nil prod.collapse)
  show ?thesis using n u l 1 2 3 4 by (simp add: c0 lock_def)
qed


subsection \<open>Shift and the anchor of the selection\<close>

lemma getIndexBeforeMove_None:
  "selection_range M = None \<Longrightarrow> getIndexBeforeMove M = focus_indexOf M"
  by (simp add: getIndexBeforeMove_def)

lemma getIndexBeforeMove_Some:
  "selection_range M = Some r \<Longrightarrow>
   getIndexBeforeMove M =
     \<lparr>row = endUnlessPassed (row (focus_indexOf M)) (rowRange r),
      column = endUnlessPassed (column (focus_indexOf M)) (columnRange r)\<rparr>"
  by (simp add: getIndexBeforeMove_def endUnlessPassed_def Let_def)

lemma endUnlessPassed_farthest:
  "fst r \<le> snd r \<Longrightarrow> f \<le> fst r \<or> snd r \<le> f \<Longrightarrow> farthestCorner f r (endUnlessPassed f r)"
  by (auto simp: farthestCorner_def endUnlessPassed_def)

lemma endUnlessPassed_farthest_iff:
  "fst r \<le> snd r \<Longrightarrow>
   farthestCorner f r (endUnlessPassed f r) = (f \<le> fst r \<or> snd r \<le> f \<or> f - fst r \<le> snd r - f)"
  by (auto simp: farthestCorner_def endUnlessPassed_def)

lemma keyInWithShift_update:
  assumes "keyInWithShiftSwitch K M (keyCodeOf ev) (getIndexBeforeMove M) = (index, True, ki, cs)"
    and "shiftValid M index"
  shows "\<exists>scroll. calls (snd (keyInWithShift K M ev s))
           = calls s @ cs @ SelectionUpdate (row index) (column index) # scroll"
  using assms
  by (auto simp: keyInWithShift_def shiftValid_def Let_def updateSelectionByKeyIn_def
      split: option.splits)

lemma keyInWithShift_no_update:
  assumes "keyInWithShiftSwitch K M (keyCodeOf ev) (getIndexBeforeMove M) = (index, sel, ki, cs)"
    and "\<not> (sel \<and> shiftValid M index)"
  shows "calls (snd (keyInWithShift K M ev s)) = calls s @ cs"
  using assms
  by (auto simp: keyInWithShift_def shiftValid_def Let_def updateSelectionByKeyIn_def
      split: option.splits)


lemma keyInWithShiftSwitch_arrows:
  "code = UP_ARROW K \<Longrightarrow>
     keyInWithShiftSwitch K M code A = (A\<lparr>row := row A - 1\<rparr>, True, True, [])"
  "code = DOWN_ARROW K \<Longrightarrow> code \<noteq> UP_ARROW K \<Longrightarrow>
     keyInWithShiftSwitch K M code A = (A\<lparr>row := row A + 1\<rparr>, True, True, [])"
  "code = LEFT_ARROW K \<Longrightarrow> code \<noteq> UP_ARROW K \<Longrightarrow> code \<noteq> DOWN_ARROW K \<Longrightarrow>
     keyInWithShiftSwitch K M code A = (A\<lparr>column := column A - 1\<rparr>, True, True, [])"
  "code = RIGHT_ARROW K \<Longrightarrow> code \<noteq> UP_ARROW K \<Longrightarrow> code \<noteq> DOWN_ARROW K \<Longrightarrow>
   code \<noteq> LEFT_ARROW K \<Longrightarrow>
     keyInWithShiftSwitch K M code A = (A\<lparr>column := column A + 1\<rparr>, True, True, [])"
  by (simp_all add: keyInWithShiftSwitch_def)

text \<open>
  C9, as the code has it. On a shift key-down the index that the key moves is: the focused
  index when there is no selection; with a selection, on the row axis and on the column
  axis independently, the end of the selected range when that end is greater than the
  focused index, and the start of the range otherwise. For a range with start \<open>\<le>\<close> end
  this is the corner farthest from the focused index exactly when the focused index is
  not strictly inside the range, or is inside and no nearer to the end than to the start.
  The key moves that index (an arrow by one row or column), and when the key selects and
  the moved index is valid, the selection is updated to the moved index; otherwise the
  selection model is not called.
\<close>

theorem C9_anchor:
  "(selection_range M = None \<longrightarrow> getIndexBeforeMove M = focus_indexOf M)
   \<and> (\<forall>r. selection_range M = Some r \<longrightarrow>
        row (getIndexBeforeMove M) = endUnlessPassed (row (focus_indexOf M)) (rowRange r)
        \<and> column (getIndexBeforeMove M)
            = endUnlessPassed (column (focus_indexOf M)) (columnRange r)
        \<and> (fst (rowRange r) \<le> snd (rowRange r) \<longrightarrow>
             farthestCorner (row (focus_indexOf M)) (rowRange r) (row (getIndexBeforeMove M))
               = (row (focus_indexOf M) \<le> fst (rowRange r)
                  \<or> snd (rowRange r) \<le> row (focus_indexOf M)
                  \<or> row (focus_indexOf M) - fst (rowRange r)
                      \<le> snd (rowRange r) - row (focus_indexOf M)))
        \<and> (fst (columnRange r) \<le> snd (columnRange r) \<longrightarrow>
             farthestCorner (column (focus_indexOf M)) (columnRange r)
                 (column (getIndexBeforeMove M))
               = (column (focus_indexOf M) \<le> fst (columnRange r)
                  \<or> snd (columnRange r) \<le> column (focus_indexOf M)
                  \<or> column (focus_indexOf M) - fst (columnRange r)
                      \<le> snd (columnRange r) - column (focus_indexOf M))))
   \<and> (\<forall>index sel ki cs.
        keyInWithShiftSwitch K M (keyCodeOf ev) (getIndexBeforeMove M) = (index, sel, ki, cs) \<longrightarrow>
          (sel \<and> shiftValid M index \<longrightarrow>
             (\<exists>scroll. calls (snd (keyInWithShift K M ev s))
                = calls s @ cs @ SelectionUpdate (row index) (column index) # scroll))
          \<and> (\<not> (sel \<and> shiftValid M index) \<longrightarrow>
                calls (snd (keyInWithShift K M ev s)) = calls s @ cs))
   \<and> (keyCodeOf ev = UP_ARROW K \<longrightarrow>
        keyInWithShiftSwitch K M (keyCodeOf ev) A = (A\<lparr>row := row A - 1\<rparr>, True, True, []))
   \<and> (keyCodeOf ev = DOWN_ARROW K \<and> DOWN_ARROW K \<noteq> UP_ARROW K \<longrightarrow>
        keyInWithShiftSwitch K M (keyCodeOf ev) A = (A\<lparr>row := row A + 1\<rparr>, True, True, []))
   \<and> (keyCodeOf ev = LEFT_ARROW K \<and> LEFT_ARROW K \<notin> {UP_ARROW K, DOWN_ARROW K} \<longrightarrow>
        keyInWithShiftSwitch K M (keyCodeOf ev) A
          = (A\<lparr>column := column A - 1\<rparr>, True, True, []))
   \<and> (keyCodeOf ev = RIGHT_ARROW K
        \<and> RIGHT_ARROW K \<notin> {UP_ARROW K, DOWN_ARROW K, LEFT_ARROW K} \<longrightarrow>
        keyInWithShiftSwitch K M (keyCodeOf ev) A
          = (A\<lparr>column := column A + 1\<rparr>, True, True, []))"
proof (intro conjI allI impI)
  show "getIndexBeforeMove M = focus_indexOf M" if "selection_range M = None"
    using that by (rule getIndexBeforeMove_None)
next
  fix r assume r: "selection_range M = Some r"
  note a = getIndexBeforeMove_Some [OF r]
  show ro: "row (getIndexBeforeMove M) = endUnlessPassed (row (focus_indexOf M)) (rowRange r)"
    by (simp add: a)
  show co: "column (getIndexBeforeMove M)
              = endUnlessPassed (column (focus_indexOf M)) (columnRange r)"
    by (simp add: a)
  show "farthestCorner (row (focus_indexOf M)) (rowRange r) (row (getIndexBeforeMove M))
          = (row (focus_indexOf M) \<le> fst (rowRange r)
             \<or> snd (rowRange r) \<le> row (focus_indexOf M)
             \<or> row (focus_indexOf M) - fst (rowRange r)
                 \<le> snd (rowRange r) - row (focus_indexOf M))"
    if "fst (rowRange r) \<le> snd (rowRange r)"
    unfolding ro using that by (rule endUnlessPassed_farthest_iff)
  show "farthestCorner (column (focus_indexOf M)) (columnRange r)
            (column (getIndexBeforeMove M))
          = (column (focus_indexOf M) \<le> fst (columnRange r)
             \<or> snd (columnRange r) \<le> column (focus_indexOf M)
             \<or> column (focus_indexOf M) - fst (columnRange r)
                 \<le> snd (columnRange r) - column (focus_indexOf M))"
    if "fst (columnRange r) \<le> snd (columnRange r)"
    unfolding co using that by (rule endUnlessPassed_farthest_iff)
next
  fix index sel ki cs
  assume sw: "keyInWithShiftSwitch K M (keyCodeOf ev) (getIndexBeforeMove M)
                = (index, sel, ki, cs)"
  show "\<exists>scroll. calls (snd (keyInWithShift K M ev s))
          = calls s @ cs @ SelectionUpdate (row index) (column index) # scroll"
    if "sel \<and> shiftValid M index"
    using keyInWithShift_update [of K M ev index ki cs s] sw that by simp
  show "calls (snd (keyInWithShift K M ev s)) = calls s @ cs"
    if "\<not> (sel \<and> shiftValid M index)"
    using sw that by (rule keyInWithShift_no_update)
qed (simp_all add: keyInWithShiftSwitch_arrows)

theorem C9_anchor_witness:
  "getIndexBeforeMove (gridModels (Some 1) \<lparr>row = 1, column = 1\<rparr> None)
     = \<lparr>row = 1, column = 1\<rparr>
   \<and> row (getIndexBeforeMove (gridModels (Some 1) \<lparr>row = 1, column = 1\<rparr>
        (Some \<lparr>rowRange = (1, 3), columnRange = (1, 1)\<rparr>))) = 3
   \<and> column (getIndexBeforeMove (gridModels (Some 1) \<lparr>row = 1, column = 1\<rparr>
        (Some \<lparr>rowRange = (1, 3), columnRange = (1, 1)\<rparr>))) = 1
   \<and> farthestCorner 1 (1, 3) 3
   \<and> calls (snd (keyInWithShift domKeys
        (gridModels (Some 1) \<lparr>row = 1, column = 1\<rparr>
           (Some \<lparr>rowRange = (1, 3), columnRange = (1, 1)\<rparr>))
        (shift 40) (initialize False))) = [SelectionUpdate 4 1]"
proof -
  let ?N = "gridModels (Some 1) \<lparr>row = 1, column = 1\<rparr> None"
  let ?r = "\<lparr>rowRange = (1, 3), columnRange = (1, 1)\<rparr>"
  let ?M = "gridModels (Some 1) \<lparr>row = 1, column = 1\<rparr> (Some ?r)"
  let ?s = "initialize False :: (int option, string) clipboard"
  have n: "selection_range ?N = None" "focus_indexOf ?N = \<lparr>row = 1, column = 1\<rparr>"
    by (simp_all add: gridModels_def)
  have m: "selection_range ?M = Some ?r" "focus_indexOf ?M = \<lparr>row = 1, column = 1\<rparr>"
    by (simp_all add: gridModels_def)
  from C9_anchor [of ?N domKeys "shift 40" ?s] n
  have 1: "getIndexBeforeMove ?N = \<lparr>row = 1, column = 1\<rparr>" by simp
  note t = C9_anchor [of ?M domKeys "shift 40" ?s]
  from t m(1)
  have ro: "row (getIndexBeforeMove ?M) = endUnlessPassed (row (focus_indexOf ?M)) (rowRange ?r)"
    and co: "column (getIndexBeforeMove ?M)
               = endUnlessPassed (column (focus_indexOf ?M)) (columnRange ?r)"
    and fc: "fst (rowRange ?r) \<le> snd (rowRange ?r) \<longrightarrow>
             farthestCorner (row (focus_indexOf ?M)) (rowRange ?r) (row (getIndexBeforeMove ?M))
               = (row (focus_indexOf ?M) \<le> fst (rowRange ?r)
                  \<or> snd (rowRange ?r) \<le> row (focus_indexOf ?M)
                  \<or> row (focus_indexOf ?M) - fst (rowRange ?r)
                      \<le> snd (rowRange ?r) - row (focus_indexOf ?M))"
    by blast+
  have 2: "row (getIndexBeforeMove ?M) = 3" "column (getIndexBeforeMove ?M) = 1"
    unfolding ro co m(2) by (simp_all add: endUnlessPassed_def)
  have 3: "farthestCorner 1 (1, 3) 3" using fc unfolding 2 m(2) by simp
  have 4: "calls (snd (keyInWithShift domKeys ?M (shift 40) ?s)) = [SelectionUpdate 4 1]"
    by (simp add: keyInWithShift_def keyInWithShiftSwitch_def getIndexBeforeMove_def
        at_index_def updateSelectionByKeyIn_def call_def initialize_def gridModels_def
        keyCodeOf_def shift_def key_def domKeys_def Let_def)
  from 1 2 3 4 show ?thesis by simp
qed

text \<open>
  After Ctrl+A in the grid of twelve rows, all rows are selected while the focus stays
  in row 8. The index to move is then row 11, three rows from the focus, though the
  corner farthest from the focus is row 0; Shift+Up updates the selection to row 10.
\<close>

theorem C9_anchor_counterexample:
  "selection_range (gridModels (Some 8) \<lparr>row = 8, column = 1\<rparr>
       (Some \<lparr>rowRange = (0, 11), columnRange = (0, 2)\<rparr>))
     = Some \<lparr>rowRange = (0, 11), columnRange = (0, 2)\<rparr>
   \<and> row (focus_indexOf (gridModels (Some 8) \<lparr>row = 8, column = 1\<rparr>
       (Some \<lparr>rowRange = (0, 11), columnRange = (0, 2)\<rparr>))) = 8
   \<and> row (getIndexBeforeMove (gridModels (Some 8) \<lparr>row = 8, column = 1\<rparr>
       (Some \<lparr>rowRange = (0, 11), columnRange = (0, 2)\<rparr>))) = 11
   \<and> \<not> farthestCorner 8 (0, 11) 11
   \<and> farthestCorner 8 (0, 11) 0
   \<and> calls (snd (keyInWithShift domKeys
        (gridModels (Some 8) \<lparr>row = 8, column = 1\<rparr>
           (Some \<lparr>rowRange = (0, 11), columnRange = (0, 2)\<rparr>))
        (shift 38) (initialize False))) = [SelectionUpdate 10 2]"
  by (simp add: getIndexBeforeMove_def gridModels_def farthestCorner_def Let_def
      keyInWithShift_def keyInWithShiftSwitch_def at_index_def updateSelectionByKeyIn_def
      call_def initialize_def keyCodeOf_def shift_def key_def domKeys_def)

subsection \<open>Paste\<close>

lemma pasteToGrid_eq:
  "pasteToGrid M s =
     s\<lparr>keyupHandlers := 0,
       calls := calls s @ [DataPaste (getProcessClipBoardData (elVal s)) (pasteOrigin M)]\<rparr>"
  by (simp add: pasteToGrid_def pasteOrigin_def hasSelection_def getStartIndex_def call_def
      Let_def split: option.splits)

lemma keyupHandler_eq:
  "keyupHandler M s =
     s\<lparr>keyupHandlers := 0, pasting := False,
       calls := calls s @ [DataPaste (getProcessClipBoardData (elVal s)) (pasteOrigin M)]\<rparr>"
  by (simp add: keyupHandler_def pasteToGrid_eq)

lemma onKeyUp_armed:
  "keyupHandlers s = 1 \<Longrightarrow> onKeyUp M s = keyupHandler M s"
  by (simp add: onKeyUp_def)

lemma onKeyUp_unarmed:
  "keyupHandlers s = 0 \<Longrightarrow> onKeyUp M s = s"
  by (simp add: onKeyUp_def)

lemma keyInWithCtrl_V:
  "isCtrlV K ev \<Longrightarrow> keyInWithCtrl K M ev s = (ev, pasteWhenKeyupCharV s)"
  by (simp add: isCtrlV_def keyInWithCtrl_def Let_def)

lemma dispatch_V:
  assumes "isCtrlV K ev"
  shows "dispatch K M ev s = (ev, pasteWhenKeyupCharV s)"
proof -
  from assms have "\<not> shiftKey ev" "ctrlKey ev \<or> metaKey ev"
    by (simp_all add: isCtrlV_def)
  then show ?thesis using keyInWithCtrl_V [OF assms] by (simp add: dispatch_def)
qed

lemma onKeyDown_V:
  "isCtrlV K ev \<Longrightarrow>
   onKeyDown K M ev s = (if isLocked s then (preventDefault ev, s) else (ev, lock (pasteWhenKeyupCharV s)))"
  by (simp add: onKeyDown_def dispatch_V)

lemma pasteWhenKeyupCharV_eq:
  "pasteWhenKeyupCharV s =
     (if pasting s then s\<lparr>elVal := []\<rparr>
      else s\<lparr>elVal := [], pasting := True, keyupHandlers := Suc (keyupHandlers s)\<rparr>)"
  by (simp add: pasteWhenKeyupCharV_def clearClipBoard_def Let_def)

lemma lock_fields [simp]:
  "pasting (lock s) = pasting s" "keyupHandlers (lock s) = keyupHandlers s"
  "calls (lock s) = calls s" "elVal (lock s) = elVal s"
  by (simp_all add: lock_def)

text \<open>
  C8. A key-up that finds the paste armed (one handler bound) makes exactly one call,
  the paste of the clip matrix of the textarea, and its start index is the paste origin:
  the start (top-left) index of the selected range when there is a selection, the focused
  index otherwise. So it is for the whole sequence Ctrl+V, the browser's insertion of the
  clipboard text, key-up, from a state with nothing armed.
\<close>

theorem C8_paste_origin:
  "(keyupHandlers s = 1 \<longrightarrow>
      onKeyUp M s =
        s\<lparr>keyupHandlers := 0, pasting := False,
          calls := calls s @ [DataPaste (getProcessClipBoardData (elVal s)) (pasteOrigin M)]\<rparr>)
   \<and> (isCtrlV K ev \<and> \<not> isLocked s \<and> armed_inv s \<and> \<not> pasting s \<longrightarrow>
        calls (run K [KeyDown ev M0, Insert text, KeyUp M] s)
          = calls s @ [DataPaste (getProcessClipBoardData text) (pasteOrigin M)])
   \<and> (\<forall>r. selection_range M = Some r \<longrightarrow>
          hasSelection M \<and> pasteOrigin M = getStartIndex r
          \<and> pasteOrigin M = \<lparr>row = fst (rowRange r), column = fst (columnRange r)\<rparr>)
   \<and> (selection_range M = None \<longrightarrow> \<not> hasSelection M \<and> pasteOrigin M = focus_indexOf M)"
proof (intro conjI impI allI)
  assume "keyupHandlers s = 1"
  then show "onKeyUp M s =
        s\<lparr>keyupHandlers := 0, pasting := False,
          calls := calls s @ [DataPaste (getProcessClipBoardData (elVal s)) (pasteOrigin M)]\<rparr>"
    by (simp add: onKeyUp_armed keyupHandler_eq)
next
  assume a: "isCtrlV K ev \<and> \<not> isLocked s \<and> armed_inv s \<and> \<not> pasting s"
  let ?s1 = "lock (pasteWhenKeyupCharV s)"
  let ?s2 = "?s1\<lparr>elVal := elVal ?s1 @ text\<rparr>"
  have 1: "snd (onKeyDown K M0 ev s) = ?s1" using a by (simp add: onKeyDown_V)
  have h: "keyupHandlers ?s2 = 1" using a by (simp add: pasteWhenKeyupCharV_eq armed_inv_def)
  have r: "run K [KeyDown ev M0, Insert text, KeyUp M] s = onKeyUp M ?s2"
    by (simp add: 1)
  have k: "calls (keyupHandler M ?s2)
             = calls s @ [DataPaste (getProcessClipBoardData text) (pasteOrigin M)]"
    by (simp add: keyupHandler_eq pasteWhenKeyupCharV_eq)
  show "calls (run K [KeyDown ev M0, Insert text, KeyUp M] s)
          = calls s @ [DataPaste (getProcessClipBoardData text) (pasteOrigin M)]"
    by (simp only: r onKeyUp_armed [OF h] k)
qed (simp_all add: pasteOrigin_def hasSelection_def getStartIndex_def)


lemma elapse_fields [simp]:
  "pasting (elapse d s) = pasting s" "keyupHandlers (elapse d s) = keyupHandlers s"
  "calls (elapse d s) = calls s" "elVal (elapse d s) = elVal s"
  by (simp_all add: elapse_def unlock_def Let_def)

lemma pastes_keyupHandler: "pastes (keyupHandler M s) = Suc (pastes s)"
  by (simp add: keyupHandler_eq pastes_def)

lemma onKeyDown_pastes: "pastes (snd (onKeyDown K M ev s)) = pastes s"
  using dispatch_frame [of s K M ev]
  by (cases "dispatch K M ev s") (simp add: onKeyDown_def pastes_def lock_def)

text \<open>A key-down arms at most one paste and never binds a second handler.\<close>

lemma pasteWhenKeyupCharV_armed_inv: "armed_inv s \<Longrightarrow> armed_inv (pasteWhenKeyupCharV s)"
  by (simp add: pasteWhenKeyupCharV_eq armed_inv_def)

lemma dispatch_armed_inv: "armed_inv s \<Longrightarrow> armed_inv (snd (dispatch K M ev s))"
  using keyIn_frame [of s K M ev] keyInWithShift_frame [of s K M ev]
    keyInWithShiftAndCtrl_frame [of s K M ev]
  by (auto simp: dispatch_def armed_inv_def keyInWithCtrl_def Let_def copyToClipboard_def
      pasteWhenKeyupCharV_eq)

lemma onKeyDown_armed_inv: "armed_inv s \<Longrightarrow> armed_inv (snd (onKeyDown K M ev s))"
  using dispatch_armed_inv [of s K M ev]
  by (cases "dispatch K M ev s") (simp add: onKeyDown_def armed_inv_def)

lemma onKeyUp_cases:
  "armed_inv s \<Longrightarrow> onKeyUp M s = (if pasting s then keyupHandler M s else s)"
  by (simp add: armed_inv_def onKeyUp_def)

lemma step_armed_inv: "armed_inv s \<Longrightarrow> armed_inv (step K e s)"
proof (cases e)
  case (KeyDown ev M)
  then show "armed_inv s \<Longrightarrow> ?thesis" by (simp add: onKeyDown_armed_inv)
next
  case (KeyUp M)
  then show "armed_inv s \<Longrightarrow> ?thesis"
    by (simp add: onKeyUp_cases keyupHandler_eq) (simp add: armed_inv_def)
next
  case (Elapse d)
  then show "armed_inv s \<Longrightarrow> ?thesis" by (simp add: armed_inv_def)
next
  case (Insert t)
  then show "armed_inv s \<Longrightarrow> ?thesis" by (simp add: armed_inv_def)
qed

lemma run_armed_inv: "armed_inv s \<Longrightarrow> armed_inv (run K es s)"
  by (induction es arbitrary: s) (simp_all add: step_armed_inv)

lemma step_potential:
  assumes "armed_inv s"
  shows "potential (step K e s) \<le> potential s + (if isKeyDown e then 1 else 0)"
proof (cases e)
  case (KeyDown ev M)
  then show ?thesis by (simp add: potential_def onKeyDown_pastes)
next
  case (KeyUp M)
  with assms show ?thesis
    by (simp add: potential_def onKeyUp_cases pastes_keyupHandler) (simp add: keyupHandler_eq)
next
  case (Elapse d)
  then show ?thesis by (simp add: potential_def pastes_def)
next
  case (Insert t)
  then show ?thesis by (simp add: potential_def pastes_def)
qed

lemma run_potential:
  "armed_inv s \<Longrightarrow> potential (run K es s) \<le> potential s + length (filter isKeyDown es)"
proof (induction es arbitrary: s)
  case Nil
  show ?case by simp
next
  case (Cons e es)
  from Cons.IH [OF step_armed_inv [OF Cons.prems], of K e] step_potential [OF Cons.prems, of K e]
  show ?case by (simp split: if_splits)
qed

text \<open>Without a further key-down: one paste at the first key-up, none after it.\<close>

lemma run_disarmed:
  "\<not> pasting s \<Longrightarrow> keyupHandlers s = 0 \<Longrightarrow> \<forall>e \<in> set es. \<not> isKeyDown e \<Longrightarrow>
   pastes (run K es s) = pastes s \<and> keyupHandlers (run K es s) = 0 \<and> \<not> pasting (run K es s)"
proof (induction es arbitrary: s)
  case Nil
  then show ?case by simp
next
  case (Cons e es)
  have "\<not> pasting (step K e s) \<and> keyupHandlers (step K e s) = 0 \<and> pastes (step K e s) = pastes s"
    using Cons.prems by (cases e) (simp_all add: onKeyUp_unarmed pastes_def)
  with Cons.IH [of "step K e s"] Cons.prems(3) show ?case by simp
qed

lemma run_armed:
  "pasting s \<Longrightarrow> keyupHandlers s = 1 \<Longrightarrow> \<forall>e \<in> set es. \<not> isKeyDown e \<Longrightarrow>
   pastes (run K es s) = pastes s + (if \<exists>e \<in> set es. isKeyUp e then 1 else 0)
   \<and> keyupHandlers (run K es s) = (if \<exists>e \<in> set es. isKeyUp e then 0 else 1)"
proof (induction es arbitrary: s)
  case Nil
  then show ?case by simp
next
  case (Cons e es)
  show ?case
  proof (cases e)
    case (KeyDown ev M)
    with Cons.prems(3) show ?thesis by simp
  next
    case (KeyUp M)
    let ?s' = "keyupHandler M s"
    have st: "onKeyUp M s = ?s'" using Cons.prems(2) by (simp add: onKeyUp_armed)
    have "\<not> pasting ?s'" "keyupHandlers ?s' = 0" by (simp_all add: keyupHandler_eq)
    from run_disarmed [OF this, of es K] Cons.prems(3) KeyUp show ?thesis
      by (simp add: st pastes_keyupHandler)
  next
    case (Elapse d)
    with Cons.IH [of "elapse d s"] Cons.prems show ?thesis by (simp add: pastes_def)
  next
    case (Insert t)
    with Cons.IH [of "s\<lparr>elVal := elVal s @ t\<rparr>"] Cons.prems show ?thesis
      by (simp add: pastes_def)
  qed
qed

text \<open>
  C3. At most one key-up handler is ever bound, and it is bound exactly while a paste is
  armed; the pastes made never exceed the key-downs that armed them. After a Ctrl+V
  key-down that arms the paste, the events that follow, as long as no key-down is among
  them, make exactly one paste if a key-up is among them and none otherwise, however many
  key-ups there are: the first key-up unbinds the handler. A Ctrl+V key-down while a paste
  is armed binds no further handler.
\<close>

theorem C3_one_shot_paste:
  assumes inv: "armed_inv s"
  shows "armed_inv (run K es s) \<and> keyupHandlers (run K es s) \<le> 1
    \<and> pastes (run K es s) \<le> pastes s + (if pasting s then 1 else 0) + length (filter isKeyDown es)
    \<and> (isCtrlV K ev \<and> \<not> isLocked s \<and> \<not> pasting s \<longrightarrow>
         pasting (step K (KeyDown ev M) s)
         \<and> keyupHandlers (step K (KeyDown ev M) s) = 1
         \<and> (\<forall>ups. (\<forall>e \<in> set ups. \<not> isKeyDown e) \<longrightarrow>
               pastes (run K ups (step K (KeyDown ev M) s))
                 = pastes s + (if \<exists>e \<in> set ups. isKeyUp e then 1 else 0)
               \<and> keyupHandlers (run K ups (step K (KeyDown ev M) s))
                 = (if \<exists>e \<in> set ups. isKeyUp e then 0 else 1)))
    \<and> (isCtrlV K ev \<and> pasting s \<longrightarrow>
         pasting (step K (KeyDown ev M) s) \<and> keyupHandlers (step K (KeyDown ev M) s) = 1)"
proof (intro conjI impI allI)
  show "armed_inv (run K es s)" using inv by (rule run_armed_inv)
  then show "keyupHandlers (run K es s) \<le> 1" by (simp add: armed_inv_def)
  show "pastes (run K es s) \<le> pastes s + (if pasting s then 1 else 0) + length (filter isKeyDown es)"
    using run_potential [OF inv, of K es] by (simp add: potential_def split: if_splits)
next
  assume a: "isCtrlV K ev \<and> \<not> isLocked s \<and> \<not> pasting s"
  let ?s1 = "step K (KeyDown ev M) s"
  have s1: "snd (onKeyDown K M ev s) = lock (pasteWhenKeyupCharV s)"
    using a by (simp add: onKeyDown_V)
  show p: "pasting ?s1" using a by (simp add: s1 pasteWhenKeyupCharV_eq)
  show h: "keyupHandlers ?s1 = 1" using a inv by (simp add: s1 pasteWhenKeyupCharV_eq armed_inv_def)
  have c: "pastes ?s1 = pastes s" using a by (simp add: s1 pasteWhenKeyupCharV_eq pastes_def)
  fix ups :: "('a, 'b) event list"
  assume "\<forall>e \<in> set ups. \<not> isKeyDown e"
  from run_armed [OF p h this, of K] c
  show "pastes (run K ups ?s1) = pastes s + (if \<exists>e \<in> set ups. isKeyUp e then 1 else 0)"
    and "keyupHandlers (run K ups ?s1) = (if \<exists>e \<in> set ups. isKeyUp e then 0 else 1)"
    by simp_all
next
  assume a: "isCtrlV K ev \<and> pasting s"
  then show "pasting (step K (KeyDown ev M) s)"
    by (simp add: onKeyDown_V pasteWhenKeyupCharV_eq)
  show "keyupHandlers (step K (KeyDown ev M) s) = 1"
    using a inv by (simp add: onKeyDown_V pasteWhenKeyupCharV_eq armed_inv_def)
qed



theorem C3_one_shot_paste_witness:
  "armed_inv (initialize False :: (int option, string) clipboard)
   \<and> isCtrlV domKeys (ctrl 86)
   \<and> pastes (run domKeys
        [Insert ''x'', KeyUp (gridModels (Some 1) \<lparr>row = 1, column = 1\<rparr> None),
         KeyUp (gridModels (Some 1) \<lparr>row = 1, column = 1\<rparr> None)]
        (step domKeys (KeyDown (ctrl 86) (gridModels (Some 1) \<lparr>row = 1, column = 1\<rparr> None))
           (initialize False))) = 1
   \<and> keyupHandlers (run domKeys
        [Insert ''x'', KeyUp (gridModels (Some 1) \<lparr>row = 1, column = 1\<rparr> None),
         KeyUp (gridModels (Some 1) \<lparr>row = 1, column = 1\<rparr> None)]
        (step domKeys (KeyDown (ctrl 86) (gridModels (Some 1) \<lparr>row = 1, column = 1\<rparr> None))
           (initialize False))) = 0"
proof -
  let ?s = "initialize False :: (int option, string) clipboard"
  let ?M = "gridModels (Some 1) \<lparr>row = 1, column = 1\<rparr> None"
  have i: "armed_inv ?s" by (simp add: armed_inv_def initialize_def)
  have v: "isCtrlV domKeys (ctrl 86)"
    by (simp add: isCtrlV_def ctrl_def key_def keyCodeOf_def domKeys_def)
  have u: "\<not> isLocked ?s" "\<not> pasting ?s" "pastes ?s = 0"
    by (simp_all add: initialize_def pastes_def)
  have e: "\<forall>e \<in> set [Insert ''x'', KeyUp ?M, KeyUp ?M]. \<not> isKeyDown e"
    "\<exists>e \<in> set [Insert ''x'', KeyUp ?M, KeyUp ?M]. isKeyUp e"
    by simp_all
  let ?ups = "[Insert ''x'', KeyUp ?M, KeyUp ?M]"
  let ?s1 = "step domKeys (KeyDown (ctrl 86) ?M) ?s"
  from C3_one_shot_paste [OF i, of domKeys "[]" "ctrl 86" ?M] v u(1,2)
  have "\<forall>ups. (\<forall>e \<in> set ups. \<not> isKeyDown e) \<longrightarrow>
          pastes (run domKeys ups ?s1) = pastes ?s + (if \<exists>e \<in> set ups. isKeyUp e then 1 else 0)
          \<and> keyupHandlers (run domKeys ups ?s1) = (if \<exists>e \<in> set ups. isKeyUp e then 0 else 1)"
    by blast
  then have r: "pastes (run domKeys ?ups ?s1)
                  = pastes ?s + (if \<exists>e \<in> set ?ups. isKeyUp e then 1 else 0)
                \<and> keyupHandlers (run domKeys ?ups ?s1)
                  = (if \<exists>e \<in> set ?ups. isKeyUp e then 0 else 1)"
    using e(1) by blast
  have x: "(\<exists>e \<in> set ?ups. isKeyUp e) = True" by (rule eqTrueI) (rule e(2))
  from r have "pastes (run domKeys ?ups ?s1) = 1 \<and> keyupHandlers (run domKeys ?ups ?s1) = 0"
    unfolding x u(3) by (simp only: if_True add_0)
  with i v show ?thesis by simp
qed

theorem C8_paste_origin_witness:
  "calls (run domKeys
      [KeyDown (ctrl 86) (gridModels (Some 1) \<lparr>row = 1, column = 1\<rparr> None),
       Insert [CHR ''a'', tab, CHR ''b''],
       KeyUp (gridModels (Some 1) \<lparr>row = 1, column = 1\<rparr> None)]
      (initialize False))
     = [DataPaste [[''a'', ''b'']] \<lparr>row = 1, column = 1\<rparr>]
   \<and> calls (run domKeys
      [KeyDown (ctrl 86) (gridModels (Some 3) \<lparr>row = 3, column = 1\<rparr>
         (Some \<lparr>rowRange = (2, 3), columnRange = (0, 1)\<rparr>)),
       Insert [CHR ''a'', tab, CHR ''b''],
       KeyUp (gridModels (Some 3) \<lparr>row = 3, column = 1\<rparr>
         (Some \<lparr>rowRange = (2, 3), columnRange = (0, 1)\<rparr>))]
      (initialize False))
     = [DataPaste [[''a'', ''b'']] \<lparr>row = 2, column = 0\<rparr>]"
proof -
  let ?s = "initialize False :: (int option, string) clipboard"
  let ?N = "gridModels (Some 1) \<lparr>row = 1, column = 1\<rparr> None"
  let ?M = "gridModels (Some 3) \<lparr>row = 3, column = 1\<rparr>
              (Some \<lparr>rowRange = (2, 3), columnRange = (0, 1)\<rparr>)"
  have i: "armed_inv ?s" "\<not> isLocked ?s" "\<not> pasting ?s" "calls ?s = []"
    by (simp_all add: armed_inv_def initialize_def)
  have v: "isCtrlV domKeys (ctrl 86)"
    by (simp add: isCtrlV_def ctrl_def key_def keyCodeOf_def domKeys_def)
  have c: "getProcessClipBoardData [CHR ''a'', tab, CHR ''b''] = [[''a'', ''b'']]"
    by (simp add: getProcessClipBoardData_def tab_def newline_def)
  have o: "pasteOrigin ?N = \<lparr>row = 1, column = 1\<rparr>" "pasteOrigin ?M = \<lparr>row = 2, column = 0\<rparr>"
    by (simp_all add: pasteOrigin_def gridModels_def)
  from C8_paste_origin [of ?s ?N domKeys "ctrl 86" ?N "[CHR ''a'', tab, CHR ''b'']"] i v
  have 1: "calls (run domKeys [KeyDown (ctrl 86) ?N, Insert [CHR ''a'', tab, CHR ''b''], KeyUp ?N] ?s)
             = [DataPaste [[''a'', ''b'']] \<lparr>row = 1, column = 1\<rparr>]"
    by (simp only: c o) simp
  from C8_paste_origin [of ?s ?M domKeys "ctrl 86" ?M "[CHR ''a'', tab, CHR ''b'']"] i v
  have 2: "calls (run domKeys [KeyDown (ctrl 86) ?M, Insert [CHR ''a'', tab, CHR ''b''], KeyUp ?M] ?s)
             = [DataPaste [[''a'', ''b'']] \<lparr>row = 2, column = 0\<rparr>]"
    by (simp only: c o) simp
  from 1 2 show ?thesis by simp
qed

section \<open>Facts about the row data store\<close>

lemma appendUntil_shape:
  "\<exists>new. appendUntil cols i rows = rows @ new
         \<and> length (rows @ new) = max (length rows) (Suc i)
         \<and> (\<forall>r \<in> set new. \<not> disabled r \<and> rowSpan r = Map.empty
                \<and> cells r = cells (newRow cols 0))"
proof (induction cols i rows rule: appendUntil.induct)
  case (1 cols i rows)
  show ?case
  proof (cases "i < length rows")
    case True
    then show ?thesis by (subst appendUntil.simps) auto
  next
    case False
    let ?r = "newRow cols (freshKey rows)"
    from 1 [OF False] obtain new where
      n: "appendUntil cols i (rows @ [?r]) = (rows @ [?r]) @ new"
      "length ((rows @ [?r]) @ new) = max (length (rows @ [?r])) (Suc i)"
      "\<forall>r \<in> set new. \<not> disabled r \<and> rowSpan r = Map.empty \<and> cells r = cells (newRow cols 0)"
      by blast
    have "appendUntil cols i rows = rows @ (?r # new)"
      using False n(1) by (subst appendUntil.simps) simp
    moreover have "length (rows @ (?r # new)) = max (length rows) (Suc i)"
      using False n(2) by simp
    moreover have "\<forall>r \<in> set (?r # new). \<not> disabled r \<and> rowSpan r = Map.empty
                     \<and> cells r = cells (newRow cols 0)"
      using n(3) by (simp add: newRow_def)
    ultimately show ?thesis by blast
  qed
qed

lemma length_appendUntil: "length (appendUntil cols i rows) = max (length rows) (Suc i)"
  using appendUntil_shape [of cols i rows] by auto

lemma appendUntil_nth: "k < length rows \<Longrightarrow> appendUntil cols i rows ! k = rows ! k"
  using appendUntil_shape [of cols i rows] by (auto simp: nth_append)

lemma appendUntil_new:
  assumes "length rows \<le> k" "k < length (appendUntil cols i rows)"
  shows "\<not> disabled (appendUntil cols i rows ! k) \<and> rowSpan (appendUntil cols i rows ! k) = Map.empty
         \<and> cells (appendUntil cols i rows ! k) = cells (newRow cols 0)"
proof -
  obtain new where n: "appendUntil cols i rows = rows @ new"
    "\<forall>r \<in> set new. \<not> disabled r \<and> rowSpan r = Map.empty \<and> cells r = cells (newRow cols 0)"
    using appendUntil_shape [of cols i rows] by blast
  have "appendUntil cols i rows ! k = new ! (k - length rows)" "k - length rows < length new"
    using assms n(1) by (auto simp: nth_append)
  then show ?thesis using n(2) by (metis nth_mem)
qed

lemma keepsRows_refl: "keepsRows rows rows"
  by (simp add: keepsRows_def)

lemma keepsRows_trans: "keepsRows a b \<Longrightarrow> keepsRows b c \<Longrightarrow> keepsRows a c"
  by (auto simp: keepsRows_def)

lemma keepsRows_appendUntil: "keepsRows rows (appendUntil cols i rows)"
  by (simp add: keepsRows_def length_appendUntil appendUntil_nth)

lemma length_setValue [simp]: "length (setValue rows i n v) = length rows"
  by (simp add: setValue_def)

lemma length_writeCell [simp]: "length (writeCell c i v rows) = length rows"
  by (simp add: writeCell_def)

lemma keepsRows_writeCell: "keepsRows rows (writeCell c i v rows)"
  by (auto simp: keepsRows_def writeCell_def setValue_def nth_list_update)

lemma cells_writeCell:
  "k < length rows \<Longrightarrow>
   cells (writeCell c i v rows ! k) n =
     (if k = i \<and> n = columnName c \<and> writable c rows i then Some v else cells (rows ! k) n)"
  by (auto simp: writeCell_def setValue_def nth_list_update)

text \<open>Spans, followers and main rows are read off the earlier rows.\<close>

lemma spans_cong:
  "m < i \<Longrightarrow> \<forall>k < i. rowSpan (rows' ! k) = rowSpan (rows ! k) \<Longrightarrow>
   spans rows' n i m = spans rows n i m"
  by (simp add: spans_def)

lemma find_spans_cong:
  assumes "\<forall>k < i. rowSpan (rows' ! k) = rowSpan (rows ! k)"
  shows "find (spans rows' n i) [0..<i] = find (spans rows n i) [0..<i]"
  by (rule find_cong) (auto simp: spans_cong [OF _ assms])

lemma isFollower_cong:
  "\<forall>k < i. rowSpan (rows' ! k) = rowSpan (rows ! k) \<Longrightarrow> isFollower rows' i n = isFollower rows i n"
  using find_spans_cong [of i rows' rows n] by (simp add: isFollower_def)

lemma mainRow_cong:
  "\<forall>k < i. rowSpan (rows' ! k) = rowSpan (rows ! k) \<Longrightarrow> mainRow rows' i n = mainRow rows i n"
  using find_spans_cong [of i rows' rows n] by (simp add: mainRow_def)

lemma keepsRows_isFollower:
  "keepsRows rows rows' \<Longrightarrow> i < length rows \<Longrightarrow> isFollower rows' i n = isFollower rows i n"
  by (rule isFollower_cong) (simp add: keepsRows_def)

lemma keepsRows_mainRow:
  "keepsRows rows rows' \<Longrightarrow> i < length rows \<Longrightarrow> mainRow rows' i n = mainRow rows i n"
  by (rule mainRow_cong) (simp add: keepsRows_def)

lemma mainRow_le: "mainRow rows i n \<le> i"
  by (auto simp: mainRow_def split: option.splits dest!: find_Some_iff [THEN iffD1])

lemma mainRow_not_follower: "\<not> isFollower rows i n \<Longrightarrow> mainRow rows i n = i"
  by (simp add: isFollower_def mainRow_def)

lemma mainRow_follower: "isFollower rows i n \<Longrightarrow> mainRow rows i n < i"
  by (auto simp: isFollower_def mainRow_def split: option.splits dest!: find_Some_iff [THEN iffD1])


subsection \<open>Invariants of the iterations\<close>

lemma pasteRow_invariant:
  assumes "P rows"
    and "\<And>k rows. k < length vs \<Longrightarrow> P rows \<Longrightarrow> P (pasteCell cols i (j + k) (vs ! k) rows)"
  shows "P (pasteRow cols i j vs rows)"
  using assms
proof (induction vs arbitrary: j rows)
  case Nil
  then show ?case by simp
next
  case (Cons v vs)
  have 0: "P (pasteCell cols i j v rows)" using Cons.prems(2) [of 0 rows] Cons.prems(1) by simp
  have "P (pasteRow cols i (Suc j) vs (pasteCell cols i j v rows))"
  proof (rule Cons.IH [OF 0])
    fix k rows' assume "k < length vs" "P rows'"
    then show "P (pasteCell cols i (Suc j + k) (vs ! k) rows')"
      using Cons.prems(2) [of "Suc k" rows'] by simp
  qed
  then show ?case by simp
qed

lemma pasteRows_invariant:
  assumes "P rows"
    and "\<And>r k rows. r < length m \<Longrightarrow> k < length (m ! r) \<Longrightarrow> P rows \<Longrightarrow>
           P (pasteCell cols (i + r) (j + k) (m ! r ! k) rows)"
  shows "P (pasteRows cols i j m rows)"
  using assms
proof (induction m arbitrary: i rows)
  case Nil
  then show ?case by simp
next
  case (Cons vs m)
  have 0: "P (pasteRow cols i j vs rows)"
  proof (rule pasteRow_invariant [where P = P])
    show "P rows" by (rule Cons.prems(1))
  next
    fix k rows' assume "k < length vs" "P rows'"
    then show "P (pasteCell cols i (j + k) (vs ! k) rows')"
      using Cons.prems(2) [of 0 k rows'] by simp
  qed
  have "P (pasteRows cols (Suc i) j m (pasteRow cols i j vs rows))"
  proof (rule Cons.IH [OF 0])
    fix r k rows' assume "r < length m" "k < length (m ! r)" "P rows'"
    then show "P (pasteCell cols (Suc i + r) (j + k) (m ! r ! k) rows')"
      using Cons.prems(2) [of "Suc r" k rows'] by simp
  qed
  then show ?case by simp
qed

lemma fold_invariant:
  assumes "P x" and "\<And>a x. a \<in> set xs \<Longrightarrow> P x \<Longrightarrow> P (f a x)"
  shows "P (fold f xs x)"
  using assms by (induction xs arbitrary: x) auto

subsection \<open>What the operations leave as it was\<close>

lemma stays_refl: "stays cols T rows rows"
  by (simp add: stays_def keepsRows_refl)

lemma stays_keepsRows: "stays cols T rows rows' \<Longrightarrow> keepsRows rows rows'"
  by (simp add: stays_def)

lemma stays_appendUntil:
  assumes s: "stays cols T rows rows'"
  shows "stays cols T rows (appendUntil cols i rows')"
proof -
  let ?R = "appendUntil cols i rows'"
  have k: "keepsRows rows ?R"
    using stays_keepsRows [OF s] keepsRows_appendUntil by (rule keepsRows_trans)
  have l: "length rows \<le> length rows'" using s by (simp add: stays_def keepsRows_def)
  have old: "?R ! a = rows' ! a" if "a < length rows'" for a
    using that by (rule appendUntil_nth)
  have 1: "cells (?R ! a) n = cells (rows ! a) n"
    if "a < length rows" "excluded cols rows a n \<or> \<not> T a n" for a n
  proof -
    have "cells (rows' ! a) n = cells (rows ! a) n"
      using s that unfolding stays_def by blast
    then show ?thesis using old [of a] that(1) l by simp
  qed
  have 2: "\<not> disabled (?R ! a) \<and> rowSpan (?R ! a) = Map.empty
           \<and> (\<forall>n. noEdit cols n \<or> \<not> T a n \<longrightarrow> cells (?R ! a) n = cells (newRow cols 0) n)"
    if "a < length ?R" "length rows \<le> a" for a
  proof (cases "a < length rows'")
    case True
    then have "\<not> disabled (rows' ! a) \<and> rowSpan (rows' ! a) = Map.empty
           \<and> (\<forall>n. noEdit cols n \<or> \<not> T a n \<longrightarrow> cells (rows' ! a) n = cells (newRow cols 0) n)"
      using s that(2) unfolding stays_def by blast
    then show ?thesis by (simp add: old [OF True])
  next
    case False
    then show ?thesis using appendUntil_new [of rows' a cols i] that(1) by simp
  qed
  from k 1 2 show ?thesis unfolding stays_def by blast
qed

lemma stays_writeCell:
  assumes s: "stays cols T rows rows'"
    and c: "c \<in> set (visibleColumns cols)"
    and t: "i < length rows' \<Longrightarrow> T i (columnName c)"
  shows "stays cols T rows (writeCell c i v rows')"
proof -
  let ?R = "writeCell c i v rows'"
  from s have k: "keepsRows rows rows'" by (rule stays_keepsRows)
  have k': "keepsRows rows ?R"
    using k keepsRows_writeCell by (rule keepsRows_trans)
  have l: "length rows \<le> length rows'" using k by (simp add: keepsRows_def)
  have w: "\<not> noEdit cols (columnName c)" if "writable c rows' i"
    using that c by (auto simp: noEdit_def writable_def)
  have same: "cells (?R ! a) n = cells (rows' ! a) n"
    if "a < length rows'" "\<not> (a = i \<and> n = columnName c \<and> writable c rows' i)" for a n
  proof -
    have "cells (?R ! a) n =
            (if a = i \<and> n = columnName c \<and> writable c rows' i then Some v
             else cells (rows' ! a) n)"
      by (rule cells_writeCell [OF that(1)])
    also have "\<dots> = cells (rows' ! a) n" by (rule if_not_P [OF that(2)])
    finally show ?thesis .
  qed
  have 1: "cells (?R ! a) n = cells (rows ! a) n"
    if a: "a < length rows" and e: "excluded cols rows a n \<or> \<not> T a n" for a n
  proof -
    have al: "a < length rows'" using a l by simp
    have nw: "\<not> (a = i \<and> n = columnName c \<and> writable c rows' i)"
    proof
      assume x: "a = i \<and> n = columnName c \<and> writable c rows' i"
      then have "\<not> disabled (rows ! a)" using k a by (simp add: writable_def keepsRows_def)
      moreover have "\<not> noEdit cols n" using x w by simp
      moreover have "\<not> isFollower rows a n"
        using x keepsRows_isFollower [OF k a, of n] by (simp add: writable_def)
      moreover have "T a n" using x t al by simp
      ultimately show False using e by (simp add: excluded_def)
    qed
    have "cells (rows' ! a) n = cells (rows ! a) n" using s a e unfolding stays_def by blast
    then show ?thesis using same [OF al nw] by simp
  qed
  have 2: "\<not> disabled (?R ! a) \<and> rowSpan (?R ! a) = Map.empty
           \<and> (\<forall>n. noEdit cols n \<or> \<not> T a n \<longrightarrow> cells (?R ! a) n = cells (newRow cols 0) n)"
    if a: "a < length ?R" "length rows \<le> a" for a
  proof -
    have al: "a < length rows'" using a(1) by simp
    have o: "\<not> disabled (rows' ! a) \<and> rowSpan (rows' ! a) = Map.empty
           \<and> (\<forall>n. noEdit cols n \<or> \<not> T a n \<longrightarrow> cells (rows' ! a) n = cells (newRow cols 0) n)"
      using s al a(2) unfolding stays_def by blast
    have m: "disabled (?R ! a) = disabled (rows' ! a) \<and> rowSpan (?R ! a) = rowSpan (rows' ! a)"
      using keepsRows_writeCell [of rows' c i v] al by (simp add: keepsRows_def)
    have "cells (?R ! a) n = cells (newRow cols 0) n" if e: "noEdit cols n \<or> \<not> T a n" for n
    proof -
      have nw: "\<not> (a = i \<and> n = columnName c \<and> writable c rows' i)"
        using e w t al by auto
      show ?thesis using same [OF al nw] o e by simp
    qed
    with o m show ?thesis by simp
  qed
  from k' 1 2 show ?thesis unfolding stays_def by blast
qed

lemma stays_pasteCell:
  assumes "stays cols T rows rows'"
    and "j < length (visibleColumns cols) \<Longrightarrow> T i (columnName (visibleColumns cols ! j))"
  shows "stays cols T rows (pasteCell cols i j v rows')"
  using assms
  by (auto simp: pasteCell_def intro!: stays_writeCell stays_appendUntil)

lemma stays_clearCell:
  assumes "stays cols T rows rows'"
    and "j < length (visibleColumns cols) \<Longrightarrow> T i (columnName (visibleColumns cols ! j))"
  shows "stays cols T rows (clearCell cols i j rows')"
  using assms
  by (auto simp: clearCell_def intro!: stays_writeCell)

lemma stays_paste:
  "stays (columnModelList st) (pasteAims (columnModelList st) matrix a)
     (rowItems st) (rowItems (paste matrix a st))"
proof -
  let ?cols = "columnModelList st"
  let ?P = "stays ?cols (pasteAims ?cols matrix a) (rowItems st)"
  have "?P (pasteRows ?cols (fst a) (snd a) matrix (rowItems st))"
  proof (rule pasteRows_invariant [of ?P, OF stays_refl])
    fix r k rows'
    assume r: "r < length matrix" and k: "k < length (matrix ! r)" and p: "?P rows'"
    show "?P (pasteCell ?cols (fst a + r) (snd a + k) (matrix ! r ! k) rows')"
    proof (rule stays_pasteCell [OF p])
      assume "snd a + k < length (visibleColumns ?cols)"
      moreover have "targeted matrix a (fst a + r) (snd a + k)"
        using r k by (simp add: targeted_def)
      ultimately show "pasteAims ?cols matrix a (fst a + r)
          (columnName (visibleColumns ?cols ! (snd a + k)))"
        by (auto simp: pasteAims_def)
    qed
  qed
  then show ?thesis by (simp add: paste_def)
qed

lemma stays_delRange:
  "stays (columnModelList st) (delRangeAims (columnModelList st) r)
     (rowItems st) (rowItems (delRange r st))"
proof -
  let ?cols = "columnModelList st"
  let ?P = "stays ?cols (delRangeAims ?cols r) (rowItems st)"
  have "?P (fold (\<lambda>i. fold (clearCell ?cols i) [fst (snd r)..<Suc (snd (snd r))])
              [fst (fst r)..<Suc (snd (fst r))] (rowItems st))"
  proof (rule fold_invariant [of ?P, OF stays_refl])
    fix i rows'
    assume i: "i \<in> set [fst (fst r)..<Suc (snd (fst r))]" and p: "?P rows'"
    show "?P (fold (clearCell ?cols i) [fst (snd r)..<Suc (snd (snd r))] rows')"
    proof (rule fold_invariant [of ?P, OF p])
      fix j rows''
      assume j: "j \<in> set [fst (snd r)..<Suc (snd (snd r))]" and p': "?P rows''"
      show "?P (clearCell ?cols i j rows'')"
        using i j by (intro stays_clearCell [OF p']) (auto simp: delRangeAims_def)
    qed
  qed
  then show ?thesis by (simp add: delRange_def)
qed

lemma stays_delCell:
  "stays (columnModelList st) (delAims (rowItems st) k n)
     (rowItems st) (rowItems (delCell k n st))"
proof (cases "find (\<lambda>i. rowKey (rowItems st ! i) = k) [0..<length (rowItems st)]")
  case None
  then show ?thesis by (simp add: delCell_def stays_refl)
next
  case (Some i)
  note i = this
  show ?thesis
  proof (cases "find (\<lambda>c. columnName c = n) (visibleColumns (columnModelList st))")
    case None
    then show ?thesis using i by (simp add: delCell_def stays_refl)
  next
    case (Some c)
    from i have "rowKey (rowItems st ! i) = k" by (auto simp: find_Some_iff)
    moreover from Some have "c \<in> set (visibleColumns (columnModelList st))" "columnName c = n"
      by (auto simp: find_Some_iff)
    ultimately have "stays (columnModelList st) (delAims (rowItems st) k n) (rowItems st)
        (writeCell c i [] (rowItems st))"
      by (intro stays_writeCell [OF stays_refl]) (simp_all add: delAims_def)
    then show ?thesis using i Some by (simp add: delCell_def)
  qed
qed

lemma keepsRows_writable:
  "keepsRows rows rows' \<Longrightarrow> i < length rows \<Longrightarrow> writable c rows' i = writable c rows i"
  using keepsRows_isFollower [of rows rows' i "columnName c"]
  by (simp add: writable_def keepsRows_def)

subsection \<open>Columns beyond the visible ones\<close>

lemma pasteCell_out: "length (visibleColumns cols) \<le> j \<Longrightarrow> pasteCell cols i j v rows = rows"
  by (simp add: pasteCell_def)

lemma pasteRow_out: "length (visibleColumns cols) \<le> j \<Longrightarrow> pasteRow cols i j vs rows = rows"
  by (induction vs arbitrary: j rows) (simp_all add: pasteCell_out)

lemma pasteRow_take:
  "pasteRow cols i j vs rows = pasteRow cols i j (take (length (visibleColumns cols) - j) vs) rows"
proof (induction vs arbitrary: j rows)
  case Nil
  show ?case by simp
next
  case (Cons v vs)
  show ?case
  proof (cases "j < length (visibleColumns cols)")
    case True
    then have "take (length (visibleColumns cols) - j) (v # vs)
                 = v # take (length (visibleColumns cols) - Suc j) vs"
      by (simp add: take_Cons')
    then show ?thesis using Cons.IH [of "Suc j" "pasteCell cols i j v rows"] by simp
  next
    case False
    then show ?thesis by (simp add: pasteRow_out pasteCell_out)
  qed
qed

lemma pasteRows_take:
  "pasteRows cols i j m rows
     = pasteRows cols i j (map (take (length (visibleColumns cols) - j)) m) rows"
proof (induction m arbitrary: i rows)
  case Nil
  show ?case by simp
next
  case (Cons vs m)
  show ?case using Cons.IH pasteRow_take [of cols i j vs rows] by simp
qed

lemma pasteRows_out:
  "length (visibleColumns cols) \<le> j \<Longrightarrow> pasteRows cols i j m rows = rows"
  by (induction m arbitrary: i rows) (simp_all add: pasteRow_out)

subsection \<open>Row growth\<close>






subsection \<open>Where the values land\<close>

lemma distinct_map_nth:
  assumes "distinct (map f xs)" "a < length xs" "b < length xs" "f (xs ! a) = f (xs ! b)"
  shows "a = b"
  using nth_eq_iff_index_eq [OF assms(1), of a b] assms(2-4) by simp

lemma stays_pasteRow:
  assumes "stays cols T rows0 rows"
    and "\<And>k. k < length vs \<Longrightarrow> j + k < length (visibleColumns cols) \<Longrightarrow>
           T i (columnName (visibleColumns cols ! (j + k)))"
  shows "stays cols T rows0 (pasteRow cols i j vs rows)"
proof (rule pasteRow_invariant [where P = "stays cols T rows0"])
  show "stays cols T rows0 rows" by (rule assms(1))
next
  fix k rows'
  assume "k < length vs" "stays cols T rows0 rows'"
  then show "stays cols T rows0 (pasteCell cols i (j + k) (vs ! k) rows')"
    using assms(2) [of k] by (intro stays_pasteCell) simp_all
qed

lemma stays_pasteRows:
  assumes "stays cols T rows0 rows"
    and "\<And>r k. r < length m \<Longrightarrow> k < length (m ! r) \<Longrightarrow> j + k < length (visibleColumns cols) \<Longrightarrow>
           T (i + r) (columnName (visibleColumns cols ! (j + k)))"
  shows "stays cols T rows0 (pasteRows cols i j m rows)"
proof (rule pasteRows_invariant [where P = "stays cols T rows0"])
  show "stays cols T rows0 rows" by (rule assms(1))
next
  fix r k rows'
  assume "r < length m" "k < length (m ! r)" "stays cols T rows0 rows'"
  then show "stays cols T rows0 (pasteCell cols (i + r) (j + k) (m ! r ! k) rows')"
    using assms(2) [of r k] by (intro stays_pasteCell) simp_all
qed

lemma stays_cell:
  "stays cols T rows rows' \<Longrightarrow> i < length rows \<Longrightarrow> \<not> T i n \<Longrightarrow>
   cells (rows' ! i) n = cells (rows ! i) n"
  unfolding stays_def by blast

lemma pasteRow_lands:
  assumes d: "distinct (map columnName (visibleColumns cols))"
    and "k < length vs" "j + k < length (visibleColumns cols)"
  shows "i < length (pasteRow cols i j vs rows)
         \<and> (writable (visibleColumns cols ! (j + k)) (pasteRow cols i j vs rows) i \<longrightarrow>
              cells (pasteRow cols i j vs rows ! i) (columnName (visibleColumns cols ! (j + k)))
                = Some (vs ! k))"
  using assms(2,3)
proof (induction vs arbitrary: j k rows)
  case Nil
  then show ?case by simp
next
  case (Cons v vs)
  let ?vis = "visibleColumns cols"
  let ?rows1 = "pasteCell cols i j v rows"
  let ?R = "pasteRow cols i (Suc j) vs ?rows1"
  show ?case
  proof (cases k)
    case 0
    with Cons.prems have j: "j < length ?vis" by simp
    let ?c = "?vis ! j"
    let ?A = "appendUntil cols i rows"
    have r1: "?rows1 = writeCell ?c i v ?A" using j by (simp add: pasteCell_def)
    have iA: "i < length ?A" by (simp add: length_appendUntil)
    then have i1: "i < length ?rows1" by (simp add: r1)
    let ?T = "\<lambda>i' n. \<exists>k' < length vs. Suc j + k' < length ?vis
                 \<and> n = columnName (?vis ! (Suc j + k'))"
    have st: "stays cols ?T ?rows1 ?R"
      by (rule stays_pasteRow [OF stays_refl]) auto
    have nT: "\<not> ?T i (columnName ?c)"
    proof
      assume "?T i (columnName ?c)"
      then obtain k' where k': "Suc j + k' < length ?vis"
        "columnName (?vis ! j) = columnName (?vis ! (Suc j + k'))" by blast
      from distinct_map_nth [OF d j k'(1) k'(2)] show False by simp
    qed
    have k1: "keepsRows ?rows1 ?R" using st by (rule stays_keepsRows)
    have "i < length ?R" using i1 k1 by (simp add: keepsRows_def)
    moreover have "cells (?R ! i) (columnName ?c) = Some v" if w: "writable ?c ?R i"
    proof -
      have "writable ?c ?rows1 i" using keepsRows_writable [OF k1 i1] w by simp
      then have "writable ?c ?A i"
        using keepsRows_writable [OF keepsRows_writeCell iA, of ?c ?c i v] by (simp add: r1)
      then have "cells (?rows1 ! i) (columnName ?c) = Some v"
        using cells_writeCell [OF iA, of ?c i v "columnName ?c"] by (simp add: r1)
      then show ?thesis using stays_cell [OF st i1 nT] by simp
    qed
    ultimately show ?thesis using 0 by simp
  next
    case (Suc k')
    with Cons.prems Cons.IH [of k' "Suc j" ?rows1] show ?thesis by simp
  qed
qed

lemma pasteRows_lands:
  assumes d: "distinct (map columnName (visibleColumns cols))"
    and "r < length m" "k < length (m ! r)" "j + k < length (visibleColumns cols)"
  shows "i + r < length (pasteRows cols i j m rows)
         \<and> (writable (visibleColumns cols ! (j + k)) (pasteRows cols i j m rows) (i + r) \<longrightarrow>
              cells (pasteRows cols i j m rows ! (i + r))
                  (columnName (visibleColumns cols ! (j + k)))
                = Some (m ! r ! k))"
  using assms(2,3)
proof (induction m arbitrary: i r rows)
  case Nil
  then show ?case by simp
next
  case (Cons vs m)
  let ?vis = "visibleColumns cols"
  let ?c = "?vis ! (j + k)"
  let ?rows1 = "pasteRow cols i j vs rows"
  let ?R = "pasteRows cols (Suc i) j m ?rows1"
  show ?case
  proof (cases r)
    case 0
    with Cons.prems have kv: "k < length vs" by simp
    note l = pasteRow_lands [OF d kv assms(4), of i rows]
    then have i1: "i < length ?rows1" by simp
    let ?T = "\<lambda>i' (n :: string). i < i'"
    have st: "stays cols ?T ?rows1 ?R"
      by (rule stays_pasteRows [OF stays_refl]) simp
    have k1: "keepsRows ?rows1 ?R" using st by (rule stays_keepsRows)
    have "i < length ?R" using i1 k1 by (simp add: keepsRows_def)
    moreover have "cells (?R ! i) (columnName ?c) = Some (vs ! k)" if w: "writable ?c ?R i"
    proof -
      have "writable ?c ?rows1 i" using keepsRows_writable [OF k1 i1] w by simp
      with l have "cells (?rows1 ! i) (columnName ?c) = Some (vs ! k)" by simp
      then show ?thesis using stays_cell [OF st i1, of "columnName ?c"] by simp
    qed
    ultimately show ?thesis using 0 by simp
  next
    case (Suc r')
    with Cons.prems Cons.IH [of r' "Suc i" ?rows1] show ?thesis by simp
  qed
qed

lemmas store_eval = paste_def pasteCell_def writeCell_def writable_def isFollower_def spans_def
  setValue_def visibleColumns_def textColumn_def plainRow_def getValue_def mainRow_def
  appendUntil.simps newRow_def freshKey_def eval_nat_numeral

lemma columns_paste [simp]: "columnModelList (paste m a st) = columnModelList st"
  by (simp add: paste_def)

lemma columns_delRange [simp]: "columnModelList (delRange r st) = columnModelList st"
  by (simp add: delRange_def)

lemma columns_delCell [simp]: "columnModelList (delCell k n st) = columnModelList st"
  by (simp add: delCell_def split: option.splits)

lemma getValue_main:
  "i < length (rowItems st) \<Longrightarrow> getValue st i n = cells (rowItems st ! mainRow (rowItems st) i n) n"
  by (simp add: getValue_def)

lemma stays_getValue:
  assumes s: "stays (columnModelList st) T (rowItems st) (rowItems st')"
    and i: "i < length (rowItems st)"
  shows "getValue st' i n = cells (rowItems st' ! mainRow (rowItems st) i n) n"
    and "excluded (columnModelList st) (rowItems st) (mainRow (rowItems st) i n) n
         \<or> \<not> T (mainRow (rowItems st) i n) n \<Longrightarrow> getValue st' i n = getValue st i n"
proof -
  let ?m = "mainRow (rowItems st) i n"
  have k: "keepsRows (rowItems st) (rowItems st')" using s by (rule stays_keepsRows)
  have i': "i < length (rowItems st')" using k i by (simp add: keepsRows_def)
  have m: "mainRow (rowItems st') i n = ?m" using k i by (rule keepsRows_mainRow)
  show g: "getValue st' i n = cells (rowItems st' ! ?m) n"
    using getValue_main [OF i', of n] by (simp add: m)
  have ml: "?m < length (rowItems st)" using mainRow_le [of "rowItems st" i n] i by simp
  assume "excluded (columnModelList st) (rowItems st) ?m n \<or> \<not> T ?m n"
  then have "cells (rowItems st' ! ?m) n = cells (rowItems st ! ?m) n"
    using s ml unfolding stays_def by blast
  then show "getValue st' i n = getValue st i n"
    using g getValue_main [OF i, of n] by simp
qed

lemma stays_consequences:
  assumes s: "stays (columnModelList st) T (rowItems st) (rowItems st')"
    and i: "i < length (rowItems st)"
  shows "(disabled (rowItems st ! i) \<or> noEdit (columnModelList st) n
              \<or> isFollower (rowItems st) i n \<or> \<not> T i n \<longrightarrow>
              cells (rowItems st' ! i) n = cells (rowItems st ! i) n)
           \<and> (\<not> isFollower (rowItems st) i n
                \<and> (disabled (rowItems st ! i) \<or> noEdit (columnModelList st) n \<or> \<not> T i n) \<longrightarrow>
                getValue st' i n = getValue st i n)
           \<and> (isFollower (rowItems st) i n \<longrightarrow>
                mainRow (rowItems st) i n < i
                \<and> getValue st' i n = cells (rowItems st' ! mainRow (rowItems st) i n) n
                \<and> (excluded (columnModelList st) (rowItems st) (mainRow (rowItems st) i n) n
                     \<or> \<not> T (mainRow (rowItems st) i n) n \<longrightarrow>
                     getValue st' i n = getValue st i n))"
proof (intro conjI impI)
  assume "disabled (rowItems st ! i) \<or> noEdit (columnModelList st) n
              \<or> isFollower (rowItems st) i n \<or> \<not> T i n"
  then show "cells (rowItems st' ! i) n = cells (rowItems st ! i) n"
    using s i unfolding stays_def excluded_def by blast
next
  assume a: "\<not> isFollower (rowItems st) i n
                \<and> (disabled (rowItems st ! i) \<or> noEdit (columnModelList st) n \<or> \<not> T i n)"
  then have m: "mainRow (rowItems st) i n = i" by (simp add: mainRow_not_follower)
  have "excluded (columnModelList st) (rowItems st) (mainRow (rowItems st) i n) n
         \<or> \<not> T (mainRow (rowItems st) i n) n"
    using a unfolding m excluded_def by blast
  then show "getValue st' i n = getValue st i n" by (rule stays_getValue(2) [OF s i])
next
  assume "isFollower (rowItems st) i n"
  then show "mainRow (rowItems st) i n < i" by (rule mainRow_follower)
next
  show "getValue st' i n = cells (rowItems st' ! mainRow (rowItems st) i n) n"
    by (rule stays_getValue(1) [OF s i])
next
  assume "excluded (columnModelList st) (rowItems st) (mainRow (rowItems st) i n) n
              \<or> \<not> T (mainRow (rowItems st) i n) n"
  then show "getValue st' i n = getValue st i n" by (rule stays_getValue(2) [OF s i])
qed

text \<open>
  C1, as the store has it. Each of \<^verbatim>\<open>paste\<close>, \<^verbatim>\<open>delRange\<close> and \<^verbatim>\<open>del\<close>
  leaves the store as \<open>stays\<close> says for the cells it aims at: no row is removed; the
  stored value of a cell stays as it was when the cell's row is disabled, or its column
  has no edit capability, or the cell is a follower of a row-span group, or the cell is
  not aimed at. The value the store shows for a cell that is no follower is its stored
  value, so it stays too. A follower cell is never written, but the store shows for it
  the value of its main row: it shows the prior value as long as the main cell is not
  written, and the new value of the main cell otherwise.
\<close>

theorem C1_write_exclusions:
  "stays (columnModelList st) (pasteAims (columnModelList st) matrix a)
     (rowItems st) (rowItems (paste matrix a st))
   \<and> stays (columnModelList st) (delRangeAims (columnModelList st) r)
       (rowItems st) (rowItems (delRange r st))
   \<and> stays (columnModelList st) (delAims (rowItems st) k c)
       (rowItems st) (rowItems (delCell k c st))
   \<and> (\<forall>T st'. stays (columnModelList st) T (rowItems st) (rowItems st') \<longrightarrow>
        (\<forall>i < length (rowItems st). \<forall>n.
           (disabled (rowItems st ! i) \<or> noEdit (columnModelList st) n
              \<or> isFollower (rowItems st) i n \<or> \<not> T i n \<longrightarrow>
              cells (rowItems st' ! i) n = cells (rowItems st ! i) n)
           \<and> (\<not> isFollower (rowItems st) i n
                \<and> (disabled (rowItems st ! i) \<or> noEdit (columnModelList st) n \<or> \<not> T i n) \<longrightarrow>
                getValue st' i n = getValue st i n)
           \<and> (isFollower (rowItems st) i n \<longrightarrow>
                mainRow (rowItems st) i n < i
                \<and> getValue st' i n = cells (rowItems st' ! mainRow (rowItems st) i n) n
                \<and> (excluded (columnModelList st) (rowItems st) (mainRow (rowItems st) i n) n
                     \<or> \<not> T (mainRow (rowItems st) i n) n \<longrightarrow>
                     getValue st' i n = getValue st i n))))"
proof -
  have "\<forall>T st'. stays (columnModelList st) T (rowItems st) (rowItems st') \<longrightarrow>
        (\<forall>i < length (rowItems st). \<forall>n.
           (disabled (rowItems st ! i) \<or> noEdit (columnModelList st) n
              \<or> isFollower (rowItems st) i n \<or> \<not> T i n \<longrightarrow>
              cells (rowItems st' ! i) n = cells (rowItems st ! i) n)
           \<and> (\<not> isFollower (rowItems st) i n
                \<and> (disabled (rowItems st ! i) \<or> noEdit (columnModelList st) n \<or> \<not> T i n) \<longrightarrow>
                getValue st' i n = getValue st i n)
           \<and> (isFollower (rowItems st) i n \<longrightarrow>
                mainRow (rowItems st) i n < i
                \<and> getValue st' i n = cells (rowItems st' ! mainRow (rowItems st) i n) n
                \<and> (excluded (columnModelList st) (rowItems st) (mainRow (rowItems st) i n) n
                     \<or> \<not> T (mainRow (rowItems st) i n) n \<longrightarrow>
                     getValue st' i n = getValue st i n)))"
    by (intro allI impI) (rule stays_consequences)
  with stays_paste [of st matrix a] stays_delRange [of st r] stays_delCell [of st k c]
  show ?thesis by (intro conjI)
qed

text \<open>
  The test with the span: row 0 owns a span of two rows in \<open>c2\<close>, and a 2 by 2 matrix is
  pasted at (0, 0). The cell of row 1 in \<open>c2\<close> is a follower inside the rectangle. Its
  own entry \<open>New1-2\<close> is dropped, but the value the store shows for it changes, from that
  of its main row before the paste, \<open>0-2\<close>, to \<open>New0-2\<close> (the value the row was given,
  \<open>1-2\<close>, is not shown either).
\<close>

theorem C1_write_exclusions_counterexample:
  "isFollower (rowItems rowSpanStore) 1 ''c2''
   \<and> pasteAims (columnModelList rowSpanStore)
        [[''New0-1'', ''New0-2''], [''New1-1'', ''New1-2'']] (0, 0) 1 ''c2''
   \<and> cells (rowItems rowSpanStore ! 1) ''c2'' = Some ''1-2''
   \<and> getValue rowSpanStore 1 ''c2'' = Some ''0-2''
   \<and> getValue (paste [[''New0-1'', ''New0-2''], [''New1-1'', ''New1-2'']] (0, 0) rowSpanStore)
        1 ''c2'' = Some ''New0-2''
   \<and> getValue (paste [[''New0-1'', ''New0-2''], [''New1-1'', ''New1-2'']] (0, 0) rowSpanStore)
        1 ''c2'' \<noteq> getValue rowSpanStore 1 ''c2''"
proof -
  have "pasteAims (columnModelList rowSpanStore)
        [[''New0-1'', ''New0-2''], [''New1-1'', ''New1-2'']] (0, 0) 1 ''c2''"
    unfolding pasteAims_def
    by (rule exI [of _ 1])
       (simp add: rowSpanStore_def targeted_def visibleColumns_def textColumn_def)
  then show ?thesis by (simp add: rowSpanStore_def store_eval)
qed

theorem C1_write_exclusions_witness:
  "getValue (paste [[''New0-1'', ''New0-2''], [''New1-1'', ''New1-2'']] (0, 0) disabledStore)
     0 ''c1'' = Some ''0-1''
   \<and> getValue (paste [[''New0-1'', ''New0-2''], [''New1-1'', ''New1-2'']] (0, 0) disabledStore)
     0 ''c2'' = Some ''0-2''
   \<and> getValue (paste [[''New0-1'', ''New0-2''], [''New1-1'', ''New1-2'']] (0, 0) disabledStore)
     1 ''c1'' = Some ''New1-1''
   \<and> getValue (paste [[''New0-1'', ''New0-2''], [''New1-1'', ''New1-2'']] (0, 0) disabledStore)
     1 ''c2'' = Some ''New1-2''"
proof -
  let ?m = "[[''New0-1'', ''New0-2''], [''New1-1'', ''New1-2'']]"
  let ?st = "disabledStore"
  let ?T = "pasteAims (columnModelList ?st) ?m (0, 0)"
  note t = C1_write_exclusions [of ?st ?m "(0, 0)" "((0, 0), (0, 0))" 0 "''c1''"]
  from t have s: "stays (columnModelList ?st) ?T (rowItems ?st) (rowItems (paste ?m (0, 0) ?st))"
    by blast
  from t have c: "stays (columnModelList ?st) T (rowItems ?st) (rowItems st') \<Longrightarrow>
      i < length (rowItems ?st) \<Longrightarrow>
      \<not> isFollower (rowItems ?st) i n
        \<and> (disabled (rowItems ?st ! i) \<or> noEdit (columnModelList ?st) n \<or> \<not> T i n) \<Longrightarrow>
      getValue st' i n = getValue ?st i n" for T st' i n
    by blast
  have d: "0 < length (rowItems ?st)" "disabled (rowItems ?st ! 0)"
    "\<not> isFollower (rowItems ?st) 0 n" for n
    by (simp_all add: disabledStore_def isFollower_def)
  have "getValue (paste ?m (0, 0) ?st) 0 n = getValue ?st 0 n" for n
    using c [OF s d(1), of n] d(2,3) by blast
  moreover have "getValue ?st 0 ''c1'' = Some ''0-1''" "getValue ?st 0 ''c2'' = Some ''0-2''"
    by (simp_all add: disabledStore_def store_eval)
  moreover have "getValue (paste ?m (0, 0) ?st) 1 ''c1'' = Some ''New1-1''"
    "getValue (paste ?m (0, 0) ?st) 1 ''c2'' = Some ''New1-2''"
    by (simp_all add: disabledStore_def store_eval)
  ultimately show ?thesis by simp
qed

lemma hidden_noEdit:
  assumes "distinct (map columnName cols)" "c \<in> set cols" "isHidden c"
  shows "noEdit cols (columnName c)"
proof -
  have "c' \<noteq> c" if "c' \<in> set (visibleColumns cols)" for c'
    using that assms(3) by (auto simp: visibleColumns_def)
  moreover have "c' \<in> set cols" if "c' \<in> set (visibleColumns cols)" for c'
    using that by (simp add: visibleColumns_def)
  ultimately have "columnName c' \<noteq> columnName c" if "c' \<in> set (visibleColumns cols)" for c'
    using that assms(1,2) by (metis distinct_map inj_on_eq_iff)
  then show ?thesis by (auto simp: noEdit_def)
qed

text \<open>
  C2. The column of visible index \<open>j\<close> is the \<open>j\<close>-th column of the schema with the
  hidden columns left out. With unique column names, every entry of the matrix whose
  target column index is below the visible column count lands in the cell of its target
  row under the name of that column (if the cell is writable), and no cell of a hidden
  column changes. With the columns c1, c2, c3 and c2 hidden, pasting the matrix of
  \<open>va\<close>, \<open>vb\<close> and \<open>vc\<close>, \<open>vd\<close> at (0, 0) puts \<open>va\<close> and \<open>vc\<close> into c1, \<open>vb\<close> and
  \<open>vd\<close> into c3, and c2 keeps its values.
\<close>

theorem C2_hidden_columns:
  "visibleColumns (columnModelList st) = filter (\<lambda>c. \<not> isHidden c) (columnModelList st)
   \<and> (distinct (map columnName (columnModelList st)) \<longrightarrow>
        (\<forall>r < length matrix. \<forall>k < length (matrix ! r).
           snd a + k < length (visibleColumns (columnModelList st)) \<longrightarrow>
             fst a + r < length (rowItems (paste matrix a st))
             \<and> (writable (visibleColumns (columnModelList st) ! (snd a + k))
                   (rowItems (paste matrix a st)) (fst a + r) \<longrightarrow>
                  cells (rowItems (paste matrix a st) ! (fst a + r))
                      (columnName (visibleColumns (columnModelList st) ! (snd a + k)))
                    = Some (matrix ! r ! k)))
        \<and> (\<forall>c \<in> set (columnModelList st). isHidden c \<longrightarrow>
             (\<forall>i < length (rowItems st).
                cells (rowItems (paste matrix a st) ! i) (columnName c)
                  = cells (rowItems st ! i) (columnName c))))
   \<and> map (\<lambda>(i, n). getValue (paste [[va, vb], [vc, vd]] (0, 0) (hiddenStore xs ys)) i n)
       [(0, ''c1''), (0, ''c2''), (0, ''c3''), (1, ''c1''), (1, ''c2''), (1, ''c3'')]
     = [Some va, map_of xs ''c2'', Some vb, Some vc, map_of ys ''c2'', Some vd]
   \<and> getValue (hiddenStore xs ys) 0 ''c2'' = map_of xs ''c2''
   \<and> getValue (hiddenStore xs ys) 1 ''c2'' = map_of ys ''c2''"
proof (intro conjI impI allI ballI)
  show "visibleColumns (columnModelList st) = filter (\<lambda>c. \<not> isHidden c) (columnModelList st)"
    by (simp add: visibleColumns_def)
next
  fix r k
  assume d: "distinct (map columnName (columnModelList st))"
    and r: "r < length matrix" and k: "k < length (matrix ! r)"
    and j: "snd a + k < length (visibleColumns (columnModelList st))"
  have dv: "distinct (map columnName (visibleColumns (columnModelList st)))"
    using d by (simp add: visibleColumns_def distinct_map_filter)
  note l = pasteRows_lands [OF dv r k j, of "fst a" "rowItems st"]
  show "fst a + r < length (rowItems (paste matrix a st))"
    using l by (simp add: paste_def)
  show "cells (rowItems (paste matrix a st) ! (fst a + r))
            (columnName (visibleColumns (columnModelList st) ! (snd a + k)))
          = Some (matrix ! r ! k)"
    if "writable (visibleColumns (columnModelList st) ! (snd a + k))
          (rowItems (paste matrix a st)) (fst a + r)"
    using l that by (simp add: paste_def)
next
  fix c i
  assume d: "distinct (map columnName (columnModelList st))"
    and c: "c \<in> set (columnModelList st)" "isHidden c" and i: "i < length (rowItems st)"
  have "noEdit (columnModelList st) (columnName c)" using d c by (rule hidden_noEdit)
  then show "cells (rowItems (paste matrix a st) ! i) (columnName c)
               = cells (rowItems st ! i) (columnName c)"
    using stays_paste [of st matrix a] i unfolding stays_def excluded_def by blast
qed (simp_all add: hiddenStore_def store_eval)

theorem C2_hidden_columns_witness:
  "map (\<lambda>(i, n). getValue
          (paste [[''New0-1'', ''New0-3''], [''New1-1'', ''New1-3'']] (0, 0)
             (hiddenStore [(''c1'', ''0-1''), (''c2'', ''0-2''), (''c3'', ''0-3'')]
                          [(''c1'', ''1-1''), (''c2'', ''1-2''), (''c3'', ''1-3'')])) i n)
       [(0, ''c1''), (0, ''c2''), (0, ''c3''), (1, ''c1''), (1, ''c2''), (1, ''c3'')]
     = [Some ''New0-1'', Some ''0-2'', Some ''New0-3'',
        Some ''New1-1'', Some ''1-2'', Some ''New1-3'']"
proof -
  let ?xs = "[(''c1'', ''0-1''), (''c2'', ''0-2''), (''c3'', ''0-3'')]"
  let ?ys = "[(''c1'', ''1-1''), (''c2'', ''1-2''), (''c3'', ''1-3'')]"
  have m: "map_of ?xs ''c2'' = Some ''0-2''" "map_of ?ys ''c2'' = Some ''1-2''" by simp_all
  from C2_hidden_columns [of "hiddenStore ?xs ?ys" "[]" "(0, 0)" "''New0-1''" "''New0-3''"
      "''New1-1''" "''New1-3''" ?xs ?ys]
  show ?thesis unfolding m by blast
qed

lemma length_clearCell [simp]: "length (clearCell cols i j rows) = length rows"
  by (simp add: clearCell_def)



text \<open>
  C5. A paste is the paste of the matrix with every row cut at the visible column count:
  the entries whose target column index is not below the count are dropped, they are
  written nowhere (neither into a next row nor into the last column). A matrix cell with
  such a target changes nothing, and a paste that starts at or beyond the count leaves
  the store as it is. The operation is a total function: there is no error to raise.
\<close>

theorem C5_columns_out_of_range:
  "paste matrix a st
     = paste (map (take (length (visibleColumns (columnModelList st)) - snd a)) matrix) a st
   \<and> (\<forall>i j v rows. length (visibleColumns (columnModelList st)) \<le> j \<longrightarrow>
         pasteCell (columnModelList st) i j v rows = rows)
   \<and> (length (visibleColumns (columnModelList st)) \<le> snd a \<longrightarrow> paste matrix a st = st)"
proof (intro conjI allI impI)
  show "paste matrix a st
     = paste (map (take (length (visibleColumns (columnModelList st)) - snd a)) matrix) a st"
    using pasteRows_take [of "columnModelList st" "fst a" "snd a" matrix "rowItems st"]
    by (simp add: paste_def)
next
  fix i j v rows
  assume "length (visibleColumns (columnModelList st)) \<le> j"
  then show "pasteCell (columnModelList st) i j v rows = rows" by (rule pasteCell_out)
next
  assume "length (visibleColumns (columnModelList st)) \<le> snd a"
  then show "paste matrix a st = st" by (simp add: paste_def pasteRows_out)
qed

theorem C5_columns_out_of_range_witness:
  "paste [[''New2-3'', ''New2-4'', ''New2-5'']] (2, 2) gridStore
     = paste [[''New2-3'']] (2, 2) gridStore
   \<and> paste [[''New2-3'', ''New2-4'', ''New2-5'']] (2, 3) gridStore = gridStore
   \<and> getValue (paste [[''New2-3'']] (2, 2) gridStore) 2 ''c3'' = Some ''New2-3''
   \<and> length (rowItems (paste [[''New2-3'']] (2, 2) gridStore)) = 3"
proof -
  have n: "length (visibleColumns (columnModelList gridStore)) = 3"
    by (simp add: gridStore_def visibleColumns_def textColumn_def)
  from C5_columns_out_of_range [of "[[''New2-3'', ''New2-4'', ''New2-5'']]" "(2, 2)" gridStore]
  have 1: "paste [[''New2-3'', ''New2-4'', ''New2-5'']] (2, 2) gridStore
             = paste [[''New2-3'']] (2, 2) gridStore"
    by (simp add: n)
  from C5_columns_out_of_range [of "[[''New2-3'', ''New2-4'', ''New2-5'']]" "(2, 3)" gridStore,
      THEN conjunct2, THEN conjunct2]
  have 2: "paste [[''New2-3'', ''New2-4'', ''New2-5'']] (2, 3) gridStore = gridStore"
    by (simp add: n)
  have 3: "getValue (paste [[''New2-3'']] (2, 2) gridStore) 2 ''c3'' = Some ''New2-3''"
    "length (rowItems (paste [[''New2-3'']] (2, 2) gridStore)) = 3"
    by (simp_all add: gridStore_def store_eval)
  from 1 2 3 show ?thesis by simp
qed





end
